theory Spec2Isabelle
  imports Main "HOL-Library.Word"
begin

unbundle bit_operations_syntax

section \<open>Buffers and JavaScript numbers\<close>

text \<open>
  A Node/Bun \<open>Buffer\<close> is a list of bytes. The numbers the server computes with are
  integers (ports, lengths, byte values, millisecond timestamps), so a JavaScript number is
  an \<open>int\<close>. The bitwise operators of JavaScript first convert their operands to 32-bit
  two's complement (\<open>ToInt32\<close>) and return a signed result; storing a number into a
  \<open>Uint8Array\<close> element keeps its low eight bits (\<open>ToUint8\<close>).
\<close>

type_synonym byte = "8 word"
type_synonym buffer = "byte list"

text \<open>
  \<open>RangeError\<close>: what the \<open>Buffer\<close> read and write methods of Node throw for an
  offset outside the buffer or a value outside the field (\<open>ERR_OUT_OF_RANGE\<close>,
  \<open>ERR_BUFFER_OUT_OF_BOUNDS\<close>). \<open>Error msg\<close>: \<open>throw new Error(msg)\<close>.
\<close>

datatype error = RangeError | Error string

definition bind_err :: "error + 'a \<Rightarrow> ('a \<Rightarrow> error + 'b) \<Rightarrow> error + 'b" where
  "bind_err r f = (case r of Inl e \<Rightarrow> Inl e | Inr x \<Rightarrow> f x)"

definition ToInt32 :: "int \<Rightarrow> 32 word" where
  "ToInt32 n = word_of_int n"

definition ToUint8 :: "int \<Rightarrow> byte" where
  "ToUint8 n = word_of_int n"

text \<open>\<open>a ^ b\<close>, \<open>a & b\<close> and \<open>a >> n\<close> (the shift count is taken modulo 32).\<close>

definition js_xor :: "int \<Rightarrow> int \<Rightarrow> int" where
  "js_xor a b = sint (ToInt32 a XOR ToInt32 b)"

definition js_and :: "int \<Rightarrow> int \<Rightarrow> int" where
  "js_and a b = sint (ToInt32 a AND ToInt32 b)"

definition js_sar :: "int \<Rightarrow> int \<Rightarrow> int" where
  "js_sar a n = sint (signed_drop_bit (nat (n mod 32)) (ToInt32 a))"

definition Buffer_alloc :: "nat \<Rightarrow> buffer" where
  "Buffer_alloc n = replicate n 0"

text \<open>\<open>Buffer.from(array)\<close>: every entry is truncated to a byte.\<close>

definition Buffer_from :: "int list \<Rightarrow> buffer" where
  "Buffer_from xs = map ToUint8 xs"

definition Buffer_concat :: "buffer list \<Rightarrow> buffer" where
  "Buffer_concat bufs = concat bufs"

text \<open>
  \<open>buf.slice(start, end)\<close> and \<open>buf.subarray(start, end)\<close> for non-negative
  arguments: both ends are clamped to the length of the buffer, and the result is empty when
  \<open>end \<le> start\<close>. \<open>slice_from buf start\<close> is the one-argument form.
  (\<open>slice\<close> is \<open>slice_buf\<close> here: the word library has a \<open>slice\<close> of its own.)
\<close>

definition slice_buf :: "buffer \<Rightarrow> nat \<Rightarrow> nat \<Rightarrow> buffer" where
  "slice_buf buf start end = take (end - start) (drop start buf)"

definition slice_from :: "buffer \<Rightarrow> nat \<Rightarrow> buffer" where
  "slice_from buf start = drop start buf"

text \<open>
  \<open>source.copy(target, targetStart)\<close>: copies as many bytes of \<open>source\<close> as fit
  into \<open>target\<close> from \<open>targetStart\<close> on; the model returns the target after the
  copy.
\<close>

definition copy :: "buffer \<Rightarrow> buffer \<Rightarrow> nat \<Rightarrow> buffer" where
  "copy source target targetStart =
     (let n = min (length source) (length target - targetStart)
      in take targetStart target @ take n source @ drop (targetStart + n) target)"

definition readUInt16BE :: "buffer \<Rightarrow> nat \<Rightarrow> error + int" where
  "readUInt16BE buf offset =
     (if offset + 2 \<le> length buf
      then Inr (uint (buf ! offset) * 2 ^ 8 + uint (buf ! (offset + 1)))
      else Inl RangeError)"

definition readUInt32BE :: "buffer \<Rightarrow> nat \<Rightarrow> error + int" where
  "readUInt32BE buf offset =
     (if offset + 4 \<le> length buf
      then Inr (uint (buf ! offset) * 2 ^ 24 + uint (buf ! (offset + 1)) * 2 ^ 16
                + uint (buf ! (offset + 2)) * 2 ^ 8 + uint (buf ! (offset + 3)))
      else Inl RangeError)"

text \<open>
  The write methods check the value against the range of the field and the offset against
  the buffer, and throw a \<open>RangeError\<close> when either is outside.
\<close>

definition writeUInt8 :: "buffer \<Rightarrow> int \<Rightarrow> nat \<Rightarrow> error + buffer" where
  "writeUInt8 buf v offset =
     (if v < 0 \<or> 255 < v \<or> length buf < offset + 1 then Inl RangeError
      else Inr (buf[offset := ToUint8 v]))"

definition writeUInt16BE :: "buffer \<Rightarrow> int \<Rightarrow> nat \<Rightarrow> error + buffer" where
  "writeUInt16BE buf v offset =
     (if v < 0 \<or> 65535 < v \<or> length buf < offset + 2 then Inl RangeError
      else Inr (buf[offset := ToUint8 (v div 2 ^ 8), offset + 1 := ToUint8 v]))"

definition writeUInt32BE :: "buffer \<Rightarrow> int \<Rightarrow> nat \<Rightarrow> error + buffer" where
  "writeUInt32BE buf v offset =
     (if v < 0 \<or> 4294967295 < v \<or> length buf < offset + 4 then Inl RangeError
      else Inr (buf[offset := ToUint8 (v div 2 ^ 24), offset + 1 := ToUint8 (v div 2 ^ 16),
                    offset + 2 := ToUint8 (v div 2 ^ 8), offset + 3 := ToUint8 v]))"

section \<open>STUN constants\<close>

definition STUN_MAGIC_COOKIE :: int where
  "STUN_MAGIC_COOKIE = 0x2112A442"

definition STUN_BINDING_REQUEST :: int where
  "STUN_BINDING_REQUEST = 0x0001"

definition STUN_BINDING_RESPONSE :: int where
  "STUN_BINDING_RESPONSE = 0x0101"

definition STUN_ATTR_XOR_MAPPED_ADDRESS :: int where
  "STUN_ATTR_XOR_MAPPED_ADDRESS = 0x0020"

section \<open>parseStunMessage\<close>

text \<open>
  The function is the same in all three versions of \<open>stun-server.ts\<close> (\<open>slice\<close> in
  one, \<open>subarray\<close> in the other two). The fields \<open>type\<close> and \<open>length\<close> of the
  source are \<open>type_field\<close> and \<open>length_field\<close> here.
\<close>

record ParsedStunMessage =
  type_field :: int
  length_field :: int
  transactionId :: buffer
  attributes :: buffer

text \<open>
  The source has three \<open>return null\<close> statements. The caller sees the same \<open>null\<close>
  from each; \<open>null_cause\<close> only records which of them was taken, in the order of the
  source: the length check, the cookie check, the declared-length check.
\<close>

datatype null_cause = TooShort | BadCookie | LengthMismatch

datatype parse_result = Throws error | Null null_cause | Parsed ParsedStunMessage

definition parseStunMessage :: "buffer \<Rightarrow> parse_result" where
  "parseStunMessage data =
     (if length data < 20 then Null TooShort
      else (case readUInt16BE data 0 of Inl e \<Rightarrow> Throws e | Inr type \<Rightarrow>
           (case readUInt16BE data 2 of Inl e \<Rightarrow> Throws e | Inr len \<Rightarrow>
           (case readUInt32BE data 4 of Inl e \<Rightarrow> Throws e | Inr cookie \<Rightarrow>
             (let tid = slice_buf data 8 20 in
              if cookie \<noteq> STUN_MAGIC_COOKIE then Null BadCookie
              else if int (length data) \<noteq> 20 + len then Null LengthMismatch
              else Parsed \<lparr> type_field = type, length_field = len,
                            transactionId = tid, attributes = slice_from data 20 \<rparr>)))))"

text \<open>What the caller can observe of a failed parse: \<open>!parsed\<close>.\<close>

definition is_null :: "parse_result \<Rightarrow> bool" where
  "is_null r = (case r of Null c \<Rightarrow> True | _ \<Rightarrow> False)"

section \<open>createXorMappedAddress\<close>

text \<open>
  The model starts from \<open>addrBytes\<close>, the numbers that
  \<open>address.split('.').map(Number)\<close> yields: for the dotted-quad text of an IPv4
  address, its four octets. \<open>addrBuf\<close> is the buffer made of them.

  An indexed store \<open>addrBuf[i] ^= v\<close> reads the element as a number, XORs as 32-bit
  integers and stores the low byte. A store beyond the end of a typed array is dropped
  without an error; the flag \<open>dropped\<close> records that this happened (it is not a variable
  of the source).
\<close>

record addr_state =
  addrBuf :: buffer
  dropped :: bool

definition xor_assign :: "addr_state \<Rightarrow> nat \<Rightarrow> int \<Rightarrow> addr_state" where
  "xor_assign st i v =
     (if i < length (addrBuf st)
      then st\<lparr>addrBuf := (addrBuf st)[i := ToUint8 (js_xor (uint (addrBuf st ! i)) v)]\<rparr>
      else st\<lparr>dropped := True\<rparr>)"

text \<open>\<open>(STUN_MAGIC_COOKIE >> (24 - i * 8)) & 0xFF\<close>\<close>

definition cookie_byte :: "nat \<Rightarrow> int" where
  "cookie_byte i = js_and (js_sar STUN_MAGIC_COOKIE (24 - int i * 8)) 0xFF"

text \<open>\<open>for (let i = 0; i < 4; i++) addrBuf[i] ^= cookie byte i\<close>\<close>

definition xor_cookie :: "addr_state \<Rightarrow> addr_state" where
  "xor_cookie st = fold (\<lambda>i st. xor_assign st i (cookie_byte i)) [0..<4] st"

text \<open>
  The second loop differs between the versions. In \<open>src/stun-server.ts\<close> it runs over
  the whole transaction id and stores at \<open>i % 4\<close>:
  \<^verbatim>\<open>for (let i = 0; i < transactionId.length; i++) addrBuf[i % 4] ^= transactionId[i];\<close>
  In the two later versions (\<open>part_000\<close>, \<open>part_001\<close>) it stops after four bytes:
  \<^verbatim>\<open>for (let i = 0; i < transactionId.length && i < 4; i++) addrBuf[i] ^= transactionId[i];\<close>
\<close>

definition xor_transactionId_cyclic :: "buffer \<Rightarrow> addr_state \<Rightarrow> addr_state" where
  "xor_transactionId_cyclic tid st =
     fold (\<lambda>i st. xor_assign st (i mod 4) (uint (tid ! i))) [0..<length tid] st"

definition xor_transactionId_first4 :: "buffer \<Rightarrow> addr_state \<Rightarrow> addr_state" where
  "xor_transactionId_first4 tid st =
     fold (\<lambda>i st. xor_assign st i (uint (tid ! i))) [0..<min (length tid) 4] st"

definition xorAddress_cyclic :: "int list \<Rightarrow> buffer \<Rightarrow> addr_state" where
  "xorAddress_cyclic addrBytes tid =
     xor_transactionId_cyclic tid
       (xor_cookie \<lparr> addrBuf = Buffer_from addrBytes, dropped = False \<rparr>)"

definition xorAddress_first4 :: "int list \<Rightarrow> buffer \<Rightarrow> addr_state" where
  "xorAddress_first4 addrBytes tid =
     xor_transactionId_first4 tid
       (xor_cookie \<lparr> addrBuf = Buffer_from addrBytes, dropped = False \<rparr>)"

text \<open>
  \<open>createXorMappedAddress\<close> of \<open>src/stun-server.ts\<close>: a 20-byte buffer, a running
  \<open>offset\<close>, the length field written last, the first \<open>offset + 4\<close> bytes returned.
\<close>

definition createXorMappedAddress_cyclic ::
    "int \<Rightarrow> int \<Rightarrow> int list \<Rightarrow> buffer \<Rightarrow> error + buffer" where
  "createXorMappedAddress_cyclic family port addrBytes tid =
     bind_err (writeUInt16BE (Buffer_alloc 20) STUN_ATTR_XOR_MAPPED_ADDRESS 0) (\<lambda>buf.
     let offset = 4 in
     bind_err (writeUInt8 buf 0 offset) (\<lambda>buf.
     bind_err (writeUInt8 buf family (offset + 1)) (\<lambda>buf.
     let offset = offset + 2;
         xorPort = js_xor port (js_sar STUN_MAGIC_COOKIE 16) in
     bind_err (writeUInt16BE buf xorPort offset) (\<lambda>buf.
     let offset = offset + 2;
         buf = copy (addrBuf (xorAddress_cyclic addrBytes tid)) buf offset;
         attrLength = int offset + 4 - 4 in
     bind_err (writeUInt16BE buf attrLength 2) (\<lambda>buf.
     Inr (slice_buf buf 0 (offset + 4)))))))"

text \<open>
  \<open>createXorMappedAddress\<close> of \<open>part_000\<close> and \<open>part_001\<close> (the same text in
  both): a 12-byte buffer and fixed offsets.
\<close>

definition createXorMappedAddress_first4 ::
    "int \<Rightarrow> int \<Rightarrow> int list \<Rightarrow> buffer \<Rightarrow> error + buffer" where
  "createXorMappedAddress_first4 family port addrBytes tid =
     bind_err (writeUInt16BE (Buffer_alloc 12) STUN_ATTR_XOR_MAPPED_ADDRESS 0) (\<lambda>buf.
     bind_err (writeUInt16BE buf 8 2) (\<lambda>buf.
     bind_err (writeUInt8 buf 0 4) (\<lambda>buf.
     bind_err (writeUInt8 buf family 5) (\<lambda>buf.
     let xorPort = js_xor port (js_sar STUN_MAGIC_COOKIE 16) in
     bind_err (writeUInt16BE buf xorPort 6) (\<lambda>buf.
     Inr (copy (addrBuf (xorAddress_first4 addrBytes tid)) buf 8))))))"

section \<open>createStunResponse\<close>

text \<open>The same in all three versions.\<close>

definition createStunResponse :: "int \<Rightarrow> buffer \<Rightarrow> buffer list \<Rightarrow> error + buffer" where
  "createStunResponse type tid attrs =
     (let attrBuf = Buffer_concat attrs;
          bodyLength = int (length attrBuf) in
      bind_err (writeUInt16BE (Buffer_alloc 20) type 0) (\<lambda>header.
      bind_err (writeUInt16BE header bodyLength 2) (\<lambda>header.
      bind_err (writeUInt32BE header STUN_MAGIC_COOKIE 4) (\<lambda>header.
      let header = copy tid header 8 in
      Inr (Buffer_concat [header, attrBuf])))))"

text \<open>
  Steps 3 and 4 of the message handler, once a Binding Request has been parsed:
  \<^verbatim>\<open>const xorAttr = createXorMappedAddress(family, rinfo.port, rinfo.address, parsed.transactionId);\<close>
  \<^verbatim>\<open>const response = createStunResponse(STUN_BINDING_RESPONSE, parsed.transactionId, [xorAttr]);\<close>
  with \<open>family = 1\<close>.
\<close>

definition binding_response_cyclic :: "int \<Rightarrow> int list \<Rightarrow> buffer \<Rightarrow> error + buffer" where
  "binding_response_cyclic port addrBytes tid =
     bind_err (createXorMappedAddress_cyclic 1 port addrBytes tid) (\<lambda>xorAttr.
     createStunResponse STUN_BINDING_RESPONSE tid [xorAttr])"

definition binding_response_first4 :: "int \<Rightarrow> int list \<Rightarrow> buffer \<Rightarrow> error + buffer" where
  "binding_response_first4 port addrBytes tid =
     bind_err (createXorMappedAddress_first4 1 port addrBytes tid) (\<lambda>xorAttr.
     createStunResponse STUN_BINDING_RESPONSE tid [xorAttr])"

section \<open>The rate limiter\<close>

text \<open>
  Instants are the millisecond values of \<open>Date.now()\<close>; every function that reads the
  clock takes the instant \<open>now\<close> as an argument.

  \<open>setTimeout(callback, delay)\<close> adds a callback to the pending ones: the list
  \<open>timers\<close> records, for each, the instant at which it is due. When a pending callback
  runs is decided by the runtime, not by the program: it may run late, and the clock of the
  runtime's timers need not agree with \<open>Date.now()\<close>. The program never compares the
  clock with a due instant. So the run of a callback is an event of its own (\<open>Timeout\<close>
  below), which may occur anywhere in a run of the server. The only callback of the program
  is the one that ends a pause (\<open>resume\<close>).
\<close>

subsection \<open>Class \<open>RateLimiter\<close> (\<open>part_000\<close>, \<open>part_001\<close>)\<close>

record RateLimiter =
  timestamps :: "int list"
  isPaused :: bool
  maxRequests :: int
  timeWindow :: int
  pauseDuration :: int
  timers :: "int list"

text \<open>
  The constructor of \<open>part_001\<close> stores its arguments (their defaults are 300, 10000 and
  3000; the server passes 30, 10000 and 3000).
\<close>

definition new_RateLimiter :: "int \<Rightarrow> int \<Rightarrow> int \<Rightarrow> RateLimiter" where
  "new_RateLimiter maxRequests' timeWindowMs pauseDurationMs =
     \<lparr> timestamps = [], isPaused = False, maxRequests = maxRequests',
       timeWindow = timeWindowMs, pauseDuration = pauseDurationMs, timers = [] \<rparr>"

text \<open>The constructor of \<open>part_000\<close> validates them first.\<close>

definition new_RateLimiter_validated :: "int \<Rightarrow> int \<Rightarrow> int \<Rightarrow> error + RateLimiter" where
  "new_RateLimiter_validated maxRequests' timeWindowMs pauseDurationMs =
     (if maxRequests' \<le> 0 then Inl (Error ''maxRequests must be greater than 0'')
      else if timeWindowMs \<le> 0 then Inl (Error ''timeWindowMs must be greater than 0'')
      else if pauseDurationMs \<le> 0 then Inl (Error ''pauseDurationMs must be greater than 0'')
      else Inr \<lparr> timestamps = [], isPaused = False, maxRequests = maxRequests',
                 timeWindow = timeWindowMs, pauseDuration = pauseDurationMs, timers = [] \<rparr>)"

definition triggerPause :: "int \<Rightarrow> RateLimiter \<Rightarrow> RateLimiter" where
  "triggerPause now rl =
     rl\<lparr> isPaused := True, timers := timers rl @ [now + pauseDuration rl] \<rparr>"

text \<open>The callback given to \<open>setTimeout\<close>.\<close>

definition resume :: "RateLimiter \<Rightarrow> RateLimiter" where
  "resume rl = rl\<lparr> isPaused := False, timestamps := [] \<rparr>"

definition check :: "int \<Rightarrow> RateLimiter \<Rightarrow> bool \<times> RateLimiter" where
  "check now rl =
     (if isPaused rl then (False, rl)
      else let rl = rl\<lparr> timestamps := filter (\<lambda>ts. now - ts < timeWindow rl) (timestamps rl) \<rparr>;
               rl = rl\<lparr> timestamps := timestamps rl @ [now] \<rparr>
           in if int (length (timestamps rl)) > maxRequests rl
              then (False, triggerPause now rl)
              else (True, rl))"

text \<open>
  The runtime runs its timers at instant \<open>now\<close>: every pending callback that is due then
  runs, once, and is no longer pending.
\<close>

definition run_timers :: "int \<Rightarrow> RateLimiter \<Rightarrow> RateLimiter" where
  "run_timers now rl =
     fold (\<lambda>due rl. if due \<le> now then resume rl else rl) (timers rl)
       (rl\<lparr> timers := filter (\<lambda>due. now < due) (timers rl) \<rparr>)"

text \<open>The runtime runs the oldest pending callback, whenever that is.\<close>

definition fire_timer :: "RateLimiter \<Rightarrow> RateLimiter" where
  "fire_timer rl =
     (case timers rl of [] \<Rightarrow> rl | due # rest \<Rightarrow> resume (rl\<lparr> timers := rest \<rparr>))"

text \<open>
  A run of the server, as the runtime drives it: \<open>Message now\<close> is a datagram whose
  handler calls \<open>limiter.check()\<close> at instant \<open>now\<close>; \<open>Timeout\<close> is the run of the
  pending callback. \<open>run\<close> gives the admission decisions for the datagrams, in order, and
  the state at the end; \<open>instants\<close> gives the instants of the datagrams.
\<close>

datatype event = Message int | Timeout

fun run :: "event list \<Rightarrow> RateLimiter \<Rightarrow> bool list \<times> RateLimiter" where
  "run [] rl = ([], rl)"
| "run (Message now # es) rl =
     (let (b, rl) = check now rl;
          (bs, rl) = run es rl
      in (b # bs, rl))"
| "run (Timeout # es) rl = run es (fire_timer rl)"

fun instants :: "event list \<Rightarrow> int list" where
  "instants [] = []"
| "instants (Message now # es) = now # instants es"
| "instants (Timeout # es) = instants es"

text \<open>
  The states a limiter can be in: those reached from a newly constructed one by \<open>check\<close>
  calls and runs of callbacks, at any instants and in any order.
\<close>

inductive reachable :: "RateLimiter \<Rightarrow> bool" where
  init: "reachable (new_RateLimiter m w p)"
| after_check: "reachable rl \<Longrightarrow> reachable (snd (check now rl))"
| after_timers: "reachable rl \<Longrightarrow> reachable (run_timers now rl)"
| after_timeout: "reachable rl \<Longrightarrow> reachable (fire_timer rl)"

subsection \<open>Global state and \<open>checkRateLimit\<close> (\<open>src/stun-server.ts\<close>)\<close>

definition MAX_REQUESTS :: int where
  "MAX_REQUESTS = 30"

definition TIME_WINDOW :: int where
  "TIME_WINDOW = 10 * 1000"

definition PAUSE_DURATION :: int where
  "PAUSE_DURATION = 3 * 1000"

text \<open>
  The module variables \<open>requestTimestamps\<close> and \<open>isPaused\<close> (\<open>paused\<close> here), and the
  pending timers.
\<close>

record globals =
  requestTimestamps :: "int list"
  paused :: bool
  pending :: "int list"

definition initial_globals :: globals where
  "initial_globals = \<lparr> requestTimestamps = [], paused = False, pending = [] \<rparr>"

definition checkRateLimit :: "int \<Rightarrow> globals \<Rightarrow> bool \<times> globals" where
  "checkRateLimit now g =
     (let g = g\<lparr> requestTimestamps := filter (\<lambda>ts. now - ts < TIME_WINDOW) (requestTimestamps g) \<rparr>;
          g = g\<lparr> requestTimestamps := requestTimestamps g @ [now] \<rparr>
      in if int (length (requestTimestamps g)) > MAX_REQUESTS \<and> \<not> paused g
         then (False, g\<lparr> paused := True, pending := pending g @ [now + PAUSE_DURATION] \<rparr>)
         else (True, g))"

definition resume_globals :: "globals \<Rightarrow> globals" where
  "resume_globals g = g\<lparr> paused := False, requestTimestamps := [] \<rparr>"

definition run_timers_globals :: "int \<Rightarrow> globals \<Rightarrow> globals" where
  "run_timers_globals now g =
     fold (\<lambda>due g. if due \<le> now then resume_globals g else g) (pending g)
       (g\<lparr> pending := filter (\<lambda>due. now < due) (pending g) \<rparr>)"

text \<open>
  The guard of the \<open>data\<close> handler, \<open>if (isPaused || !checkRateLimit()) return\<close>:
  \<open>checkRateLimit\<close> is not called while the server is paused. The result is whether
  the datagram goes on to the parser.
\<close>

definition data_guard :: "int \<Rightarrow> globals \<Rightarrow> bool \<times> globals" where
  "data_guard now g = (if paused g then (False, g) else checkRateLimit now g)"

definition fire_timer_globals :: "globals \<Rightarrow> globals" where
  "fire_timer_globals g =
     (case pending g of [] \<Rightarrow> g | due # rest \<Rightarrow> resume_globals (g\<lparr> pending := rest \<rparr>))"

text \<open>A run of \<open>src/stun-server.ts\<close>: the decisions of the guard, and the state at the end.\<close>

fun run_globals :: "event list \<Rightarrow> globals \<Rightarrow> bool list \<times> globals" where
  "run_globals [] g = ([], g)"
| "run_globals (Message now # es) g =
     (let (b, g) = data_guard now g;
          (bs, g) = run_globals es g
      in (b # bs, g))"
| "run_globals (Timeout # es) g = run_globals es (fire_timer_globals g)"

inductive reachable_globals :: "globals \<Rightarrow> bool" where
  init_globals: "reachable_globals initial_globals"
| after_data: "reachable_globals g \<Longrightarrow> reachable_globals (snd (data_guard now g))"
| after_timers_globals: "reachable_globals g \<Longrightarrow> reachable_globals (run_timers_globals now g)"
| after_timeout_globals: "reachable_globals g \<Longrightarrow> reachable_globals (fire_timer_globals g)"

text \<open>The global state seen as a limiter with the constants of the file.\<close>

definition limiter_of :: "globals \<Rightarrow> RateLimiter" where
  "limiter_of g =
     \<lparr> timestamps = requestTimestamps g, isPaused = paused g, maxRequests = MAX_REQUESTS,
       timeWindow = TIME_WINDOW, pauseDuration = PAUSE_DURATION, timers = pending g \<rparr>"

subsection \<open>The invariant of the limiter\<close>

text \<open>
  During a pause the timestamps recorded up to the tripping call are still there, more than
  \<open>maxRequests\<close> of them, and exactly one callback is pending; outside a pause none is.
\<close>

definition limiter_inv :: "RateLimiter \<Rightarrow> bool" where
  "limiter_inv rl \<longleftrightarrow>
     (if isPaused rl
      then timestamps rl \<noteq> [] \<and> maxRequests rl < int (length (timestamps rl))
           \<and> length (timers rl) = 1
      else timers rl = [])"

subsection \<open>Example traffic\<close>

text \<open>Thirty-one datagrams, 100 ms apart: one more than \<open>MAX_REQUESTS\<close>, within 10 s.\<close>

definition example_burst :: "int list" where
  "example_burst =
     [0, 100, 200, 300, 400, 500, 600, 700, 800, 900, 1000, 1100, 1200, 1300, 1400,
      1500, 1600, 1700, 1800, 1900, 2000, 2100, 2200, 2300, 2400, 2500, 2600, 2700,
      2800, 2900, 3000]"


definition example_tripped :: globals where
  "example_tripped = \<lparr> requestTimestamps = example_burst, paused = True, pending = [6000] \<rparr>"

section \<open>Properties of the decoder\<close>

lemma base256_unique:
  fixes x y q r :: int
  assumes "0 \<le> y" "y < 256" "0 \<le> r" "r < 256" "x * 256 + y = q * 256 + r"
  shows "x = q \<and> y = r"
proof -
  have "(x * 256 + y) div 256 = x" "(x * 256 + y) mod 256 = y"
    using assms(1,2) by simp_all
  moreover have "(q * 256 + r) div 256 = q" "(q * 256 + r) mod 256 = r"
    using assms(3,4) by simp_all
  ultimately show ?thesis using assms(5) by simp
qed

lemma cookie_ints:
  fixes a b c d :: int
  assumes "0 \<le> a" "a < 256" "0 \<le> b" "b < 256" "0 \<le> c" "c < 256" "0 \<le> d" "d < 256"
    and "a * 2 ^ 24 + b * 2 ^ 16 + c * 2 ^ 8 + d = 0x2112A442"
  shows "a = 0x21 \<and> b = 0x12 \<and> c = 0xA4 \<and> d = 0x42"
proof -
  have "((a * 256 + b) * 256 + c) * 256 + d = ((33 * 256 + 18) * 256 + 164) * 256 + 66"
    using assms(9) by simp
  then have 1: "(a * 256 + b) * 256 + c = (33 * 256 + 18) * 256 + 164 \<and> d = 66"
    by (intro base256_unique assms) simp_all
  then have 2: "a * 256 + b = 33 * 256 + 18 \<and> c = 164"
    by (intro base256_unique assms) simp_all
  then have "a = 33 \<and> b = 18"
    by (intro base256_unique assms) simp_all
  with 1 2 show ?thesis by simp
qed

lemma cookie_bytes_iff:
  fixes a b c d :: byte
  shows "uint a * 2 ^ 24 + uint b * 2 ^ 16 + uint c * 2 ^ 8 + uint d = 0x2112A442
     \<longleftrightarrow> a = 0x21 \<and> b = 0x12 \<and> c = 0xA4 \<and> d = 0x42"
proof
  assume eq: "uint a * 2 ^ 24 + uint b * 2 ^ 16 + uint c * 2 ^ 8 + uint d = 0x2112A442"
  have "uint a < 256" "uint b < 256" "uint c < 256" "uint d < 256"
    using uint_bounded [of a] uint_bounded [of b] uint_bounded [of c] uint_bounded [of d]
    by simp_all
  then have "uint a = 0x21 \<and> uint b = 0x12 \<and> uint c = 0xA4 \<and> uint d = 0x42"
    by (intro cookie_ints eq) simp_all
  then show "a = 0x21 \<and> b = 0x12 \<and> c = 0xA4 \<and> d = 0x42"
    by (simp add: word_uint_eq_iff)
next
  assume "a = 0x21 \<and> b = 0x12 \<and> c = 0xA4 \<and> d = 0x42"
  then show "uint a * 2 ^ 24 + uint b * 2 ^ 16 + uint c * 2 ^ 8 + uint d = 0x2112A442"
    by simp
qed


lemma bytes_4_8:
  assumes "8 \<le> length data"
  shows "take 4 (drop 4 data) = [data ! 4, data ! 5, data ! 6, data ! 7]"
proof -
  have "length (take 4 (drop 4 data)) = 4"
    using assms by simp
  moreover have "\<And>i. i < 4 \<Longrightarrow> take 4 (drop 4 data) ! i = data ! (4 + i)"
    using assms by simp
  ultimately show ?thesis
    by (simp add: list_eq_iff_nth_eq nth_Cons' less_Suc_eq numeral_eq_Suc)
qed

lemma readUInt32BE_cookie:
  assumes "8 \<le> length data"
  shows "readUInt32BE data 4 = Inr STUN_MAGIC_COOKIE
     \<longleftrightarrow> take 4 (drop 4 data) = [0x21, 0x12, 0xA4, 0x42]"
proof -
  have "readUInt32BE data 4 = Inr (uint (data ! 4) * 2 ^ 24 + uint (data ! 5) * 2 ^ 16
                + uint (data ! 6) * 2 ^ 8 + uint (data ! 7))"
    using assms by (simp add: readUInt32BE_def)
  then show ?thesis
    using cookie_bytes_iff [of "data ! 4" "data ! 5" "data ! 6" "data ! 7"] assms
    by (simp only: bytes_4_8 STUN_MAGIC_COOKIE_def sum.inject list.inject simp_thms)
qed

text \<open>
  Claim C5. A datagram of at least 20 bytes whose bytes 4 to 7 are the magic cookie
  \<open>21 12 A4 42\<close> and whose length is 20 plus the big-endian value of bytes 2 and 3 is
  parsed: the result carries bytes 8 to 19 unchanged as the transaction id and everything
  from byte 20 on as the attribute bytes (and bytes 0 to 1, 2 to 3 as type and length).
\<close>

theorem parseStunMessage_well_formed:
  assumes "20 \<le> length data"
    and "take 4 (drop 4 data) = [0x21, 0x12, 0xA4, 0x42]"
    and "int (length data) = 20 + (uint (data ! 2) * 2 ^ 8 + uint (data ! 3))"
  shows "parseStunMessage data =
     Parsed \<lparr> type_field = uint (data ! 0) * 2 ^ 8 + uint (data ! 1),
              length_field = uint (data ! 2) * 2 ^ 8 + uint (data ! 3),
              transactionId = take 12 (drop 8 data),
              attributes = drop 20 data \<rparr>"
proof -
  have c: "readUInt32BE data 4 = Inr STUN_MAGIC_COOKIE"
    using assms(1,2) readUInt32BE_cookie [of data] by simp
  have t: "readUInt16BE data 0 = Inr (uint (data ! 0) * 2 ^ 8 + uint (data ! 1))"
    using assms(1) by (simp add: readUInt16BE_def)
  have l: "readUInt16BE data 2 = Inr (uint (data ! 2) * 2 ^ 8 + uint (data ! 3))"
    using assms(1) by (simp add: readUInt16BE_def)
  show ?thesis
    using assms(1,3) by (simp add: parseStunMessage_def c t l slice_buf_def slice_from_def)
qed

theorem parseStunMessage_well_formed_witness:
  "parseStunMessage [0x00, 0x01, 0x00, 0x02, 0x21, 0x12, 0xA4, 0x42,
                     0x00, 0x11, 0x22, 0x33, 0x44, 0x55, 0x66, 0x77, 0x88, 0x99, 0xAA, 0xBB,
                     0xCA, 0xFE]
     = Parsed \<lparr> type_field = 1, length_field = 2,
                transactionId = [0x00, 0x11, 0x22, 0x33, 0x44, 0x55, 0x66, 0x77, 0x88, 0x99, 0xAA, 0xBB],
                attributes = [0xCA, 0xFE] \<rparr>"
  using parseStunMessage_well_formed [of "[0x00, 0x01, 0x00, 0x02, 0x21, 0x12, 0xA4, 0x42,
                     0x00, 0x11, 0x22, 0x33, 0x44, 0x55, 0x66, 0x77, 0x88, 0x99, 0xAA, 0xBB,
                     0xCA, 0xFE]"]
  by simp

text \<open>
  Claim C6, as the code has it. A datagram whose bytes 4 to 7 are not the magic cookie is
  rejected, whatever its other fields: at the cookie check when it has at least 20 bytes
  (also when its declared length does not match), and already at the length check, before
  the cookie is read, when it is shorter. The caller gets \<open>null\<close> in both cases; the
  code has no value that names the cookie as the cause.
\<close>

theorem parseStunMessage_bad_cookie:
  assumes "take 4 (drop 4 data) \<noteq> [0x21, 0x12, 0xA4, 0x42]"
  shows "parseStunMessage data = Null (if length data < 20 then TooShort else BadCookie)
       \<and> is_null (parseStunMessage data)"
proof (cases "length data < 20")
  case True
  then show ?thesis by (simp add: parseStunMessage_def is_null_def)
next
  case False
  then have len: "20 \<le> length data" by simp
  then have "readUInt32BE data 4 \<noteq> Inr STUN_MAGIC_COOKIE"
    using assms readUInt32BE_cookie [of data] by simp
  moreover obtain c where c: "readUInt32BE data 4 = Inr c"
    using len by (simp add: readUInt32BE_def)
  ultimately have "c \<noteq> STUN_MAGIC_COOKIE" by simp
  moreover obtain t where "readUInt16BE data 0 = Inr t"
    using len by (simp add: readUInt16BE_def)
  moreover obtain l where "readUInt16BE data 2 = Inr l"
    using len by (simp add: readUInt16BE_def)
  ultimately show ?thesis
    using len c by (simp add: parseStunMessage_def is_null_def)
qed

theorem parseStunMessage_bad_cookie_witness:
  "parseStunMessage [0x00, 0x01, 0x00, 0x07, 0xDE, 0xAD, 0xBE, 0xEF,
                     0x00, 0x11, 0x22, 0x33, 0x44, 0x55, 0x66, 0x77, 0x88, 0x99, 0xAA, 0xBB]
     = Null BadCookie
   \<and> parseStunMessage [0x00, 0x01, 0x00, 0x00, 0xDE, 0xAD] = Null TooShort"
  using parseStunMessage_bad_cookie [of "[0x00, 0x01, 0x00, 0x07, 0xDE, 0xAD, 0xBE, 0xEF,
                     0x00, 0x11, 0x22, 0x33, 0x44, 0x55, 0x66, 0x77, 0x88, 0x99, 0xAA, 0xBB]"]
    parseStunMessage_bad_cookie [of "[0x00, 0x01, 0x00, 0x00, 0xDE, 0xAD]"]
  by simp

text \<open>
  Claim C6 as stated fails for a short datagram: these eight bytes have \<open>DE AD BE EF\<close>
  in place of the cookie, and the parse ends at the length check.
\<close>

theorem parseStunMessage_short_counterexample:
  "take 4 (drop 4 [0x00, 0x01, 0x00, 0x00, 0xDE, 0xAD, 0xBE, 0xEF :: byte]) \<noteq> [0x21, 0x12, 0xA4, 0x42]
   \<and> parseStunMessage [0x00, 0x01, 0x00, 0x00, 0xDE, 0xAD, 0xBE, 0xEF] = Null TooShort
   \<and> parseStunMessage [0x00, 0x01, 0x00, 0x00, 0xDE, 0xAD, 0xBE, 0xEF] \<noteq> Null BadCookie"
  by (simp add: parseStunMessage_def)

section \<open>Properties of the address attribute\<close>

subsection \<open>The bytes of the attribute\<close>

lemma cookie_byte_simps:
  "cookie_byte 0 = 0x21" "cookie_byte 1 = 0x12" "cookie_byte 2 = 0xA4" "cookie_byte 3 = 0x42"
  by (simp_all add: cookie_byte_def js_and_def js_sar_def ToInt32_def STUN_MAGIC_COOKIE_def)

lemma cookie_shift: "js_sar STUN_MAGIC_COOKIE 16 = 0x2112"
  by (simp add: js_sar_def ToInt32_def STUN_MAGIC_COOKIE_def)

lemma byte_xor: "ToUint8 (js_xor (uint (b::byte)) v) = b XOR ToUint8 v"
  unfolding ToUint8_def js_xor_def ToInt32_def
  by (rule bit_word_eqI) (auto simp add: bit_simps)

lemma js_xor_small:
  assumes "0 \<le> a" "a < 2 ^ 16" "0 \<le> b" "b < 2 ^ 16"
  shows "js_xor a b = a XOR b" and "0 \<le> a XOR b" and "a XOR b < 2 ^ 16"
proof -
  show nn: "0 \<le> a XOR b" using assms by simp
  show ub: "a XOR b < 2 ^ 16" using assms by (intro XOR_upper) simp_all
  have lo: "- (2 ^ 31) \<le> a XOR b"
    by (rule order_trans [OF _ nn]) simp
  have hi: "a XOR b < 2 ^ 31"
    by (rule less_trans [OF ub]) simp
  have "js_xor a b = signed_take_bit 31 (a XOR b)"
    by (simp add: js_xor_def ToInt32_def word_wi_log_defs sint_sbintrunc')
  also have "\<dots> = a XOR b"
    by (rule signed_take_bit_int_eq_self [OF lo hi])
  finally show "js_xor a b = a XOR b" .
qed

lemma length4_cases:
  assumes "length xs = 4"
  obtains a b c d where "xs = [a, b, c, d]"
  using assms by (auto simp add: length_Suc_conv numeral_eq_Suc)


lemma ToUint8_numeral: "ToUint8 (numeral n) = numeral n" "ToUint8 0 = 0" "ToUint8 1 = 1"
  by (simp_all add: ToUint8_def)

lemma ToUint8_uint: "ToUint8 (uint b) = b"
  by (simp add: ToUint8_def)

lemma upt_0_4: "[0..<4] = [0, 1, 2, 3]"
  by (simp add: upt_rec)

lemma upt_0_12: "[0..<12] = [0, 1, 2, 3, 4, 5, 6, 7, 8, 9, 10, 11]"
  by (simp add: upt_rec)

lemma xor_assign_4:
  "xor_assign \<lparr> addrBuf = [a, b, c, d], dropped = f \<rparr> 0 v
     = \<lparr> addrBuf = [a XOR ToUint8 v, b, c, d], dropped = f \<rparr>"
  "xor_assign \<lparr> addrBuf = [a, b, c, d], dropped = f \<rparr> 1 v
     = \<lparr> addrBuf = [a, b XOR ToUint8 v, c, d], dropped = f \<rparr>"
  "xor_assign \<lparr> addrBuf = [a, b, c, d], dropped = f \<rparr> 2 v
     = \<lparr> addrBuf = [a, b, c XOR ToUint8 v, d], dropped = f \<rparr>"
  "xor_assign \<lparr> addrBuf = [a, b, c, d], dropped = f \<rparr> 3 v
     = \<lparr> addrBuf = [a, b, c, d XOR ToUint8 v], dropped = f \<rparr>"
  "xor_assign \<lparr> addrBuf = [a, b, c, d], dropped = f \<rparr> (Suc 0) v
     = \<lparr> addrBuf = [a, b XOR ToUint8 v, c, d], dropped = f \<rparr>"
  "xor_assign \<lparr> addrBuf = [a, b, c, d], dropped = f \<rparr> (Suc (Suc 0)) v
     = \<lparr> addrBuf = [a, b, c XOR ToUint8 v, d], dropped = f \<rparr>"
  "xor_assign \<lparr> addrBuf = [a, b, c, d], dropped = f \<rparr> (Suc (Suc (Suc 0))) v
     = \<lparr> addrBuf = [a, b, c, d XOR ToUint8 v], dropped = f \<rparr>"
  by (simp_all add: xor_assign_def byte_xor numeral_eq_Suc)

lemma cookie_byte_Suc: "cookie_byte (Suc 0) = 0x12"
  using cookie_byte_simps(2) by simp

lemma xor_cookie_4:
  "xor_cookie \<lparr> addrBuf = [a, b, c, d], dropped = f \<rparr>
     = \<lparr> addrBuf = [a XOR 0x21, b XOR 0x12, c XOR 0xA4, d XOR 0x42], dropped = f \<rparr>"
  by (simp add: xor_cookie_def upt_0_4 xor_assign_4 cookie_byte_simps cookie_byte_Suc ToUint8_numeral)

lemma xor_first4_4:
  assumes "4 \<le> length tid"
  shows "xor_transactionId_first4 tid \<lparr> addrBuf = [a, b, c, d], dropped = f \<rparr>
     = \<lparr> addrBuf = [a XOR tid ! 0, b XOR tid ! 1, c XOR tid ! 2, d XOR tid ! 3], dropped = f \<rparr>"
proof -
  have "min (length tid) 4 = 4" using assms by simp
  then show ?thesis
    by (simp add: xor_transactionId_first4_def upt_0_4 xor_assign_4 ToUint8_uint)
qed

lemma xor_cyclic_12:
  assumes "length tid = 12"
  shows "xor_transactionId_cyclic tid \<lparr> addrBuf = [a, b, c, d], dropped = f \<rparr>
     = \<lparr> addrBuf = [a XOR tid ! 0 XOR tid ! 4 XOR tid ! 8, b XOR tid ! 1 XOR tid ! 5 XOR tid ! 9,
                    c XOR tid ! 2 XOR tid ! 6 XOR tid ! 10, d XOR tid ! 3 XOR tid ! 7 XOR tid ! 11],
          dropped = f \<rparr>"
  using assms
  by (simp add: xor_transactionId_cyclic_def upt_0_12 xor_assign_4 ToUint8_uint ac_simps)


lemma list_update_Cons_numeral:
  "(x # xs)[numeral k := y] = x # xs[pred_numeral k := y]"
  by (simp add: numeral_eq_Suc)

lemma alloc_12: "Buffer_alloc 12 = [0, 0, 0, 0, 0, 0, 0, 0, 0, 0, 0, 0]"
  by (simp add: Buffer_alloc_def numeral_eq_Suc)

lemma alloc_20: "Buffer_alloc 20 = [0, 0, 0, 0, 0, 0, 0, 0, 0, 0, 0, 0, 0, 0, 0, 0, 0, 0, 0, 0]"
  by (simp add: Buffer_alloc_def numeral_eq_Suc)

lemma xorPort_range:
  assumes "0 \<le> port" "port \<le> 65535"
  shows "js_xor port (js_sar STUN_MAGIC_COOKIE 16) = port XOR 0x2112"
    and "0 \<le> port XOR 0x2112" and "port XOR 0x2112 \<le> 65535"
proof -
  have p: "port < 2 ^ 16" using assms(2) by simp
  have c: "(0x2112::int) < 2 ^ 16" "(0::int) \<le> 0x2112" by simp_all
  show "js_xor port (js_sar STUN_MAGIC_COOKIE 16) = port XOR 0x2112"
    unfolding cookie_shift by (rule js_xor_small(1) [OF assms(1) p c(2) c(1)])
  show "0 \<le> port XOR 0x2112"
    by (rule js_xor_small(2) [OF assms(1) p c(2) c(1)])
  have "port XOR 0x2112 < 2 ^ 16"
    by (rule js_xor_small(3) [OF assms(1) p c(2) c(1)])
  then show "port XOR 0x2112 \<le> 65535" by simp
qed

lemma first4_result:
  assumes "0 \<le> family" "family \<le> 255" "0 \<le> port" "port \<le> 65535"
    and "length addrBytes = 4" "4 \<le> length tid"
  shows "createXorMappedAddress_first4 family port addrBytes tid =
     Inr [0x00, 0x20, 0x00, 0x08, 0x00, ToUint8 family,
          ToUint8 ((port XOR 0x2112) div 2 ^ 8), ToUint8 (port XOR 0x2112),
          ToUint8 (addrBytes ! 0) XOR 0x21 XOR tid ! 0,
          ToUint8 (addrBytes ! 1) XOR 0x12 XOR tid ! 1,
          ToUint8 (addrBytes ! 2) XOR 0xA4 XOR tid ! 2,
          ToUint8 (addrBytes ! 3) XOR 0x42 XOR tid ! 3]"
proof -
  obtain a b c d where ab: "addrBytes = [a, b, c, d]"
    using assms(5) by (rule length4_cases)
  have x: "addrBuf (xorAddress_first4 addrBytes tid) =
      [ToUint8 a XOR 0x21 XOR tid ! 0, ToUint8 b XOR 0x12 XOR tid ! 1,
       ToUint8 c XOR 0xA4 XOR tid ! 2, ToUint8 d XOR 0x42 XOR tid ! 3]"
    using assms(6)
    by (simp add: xorAddress_first4_def Buffer_from_def ab xor_cookie_4 xor_first4_4 ac_simps)
  have h: "bind_err (writeUInt16BE (Buffer_alloc 12) STUN_ATTR_XOR_MAPPED_ADDRESS 0) f
      = f [0x00, 0x20, 0, 0, 0, 0, 0, 0, 0, 0, 0, 0]" for f :: "buffer \<Rightarrow> error + buffer"
    by (simp add: alloc_12 writeUInt16BE_def STUN_ATTR_XOR_MAPPED_ADDRESS_def bind_err_def
          ToUint8_def)
  show ?thesis
    unfolding createXorMappedAddress_first4_def h x
    using assms(1-4) xorPort_range [OF assms(3,4)]
    by (simp add: writeUInt16BE_def writeUInt8_def bind_err_def copy_def ab
          ToUint8_numeral list_update_Cons_numeral Let_def)
qed

lemma cyclic_result:
  assumes "0 \<le> family" "family \<le> 255" "0 \<le> port" "port \<le> 65535"
    and "length addrBytes = 4" "length tid = 12"
  shows "createXorMappedAddress_cyclic family port addrBytes tid =
     Inr [0x00, 0x20, 0x00, 0x08, 0x00, ToUint8 family,
          ToUint8 ((port XOR 0x2112) div 2 ^ 8), ToUint8 (port XOR 0x2112),
          ToUint8 (addrBytes ! 0) XOR 0x21 XOR tid ! 0 XOR tid ! 4 XOR tid ! 8,
          ToUint8 (addrBytes ! 1) XOR 0x12 XOR tid ! 1 XOR tid ! 5 XOR tid ! 9,
          ToUint8 (addrBytes ! 2) XOR 0xA4 XOR tid ! 2 XOR tid ! 6 XOR tid ! 10,
          ToUint8 (addrBytes ! 3) XOR 0x42 XOR tid ! 3 XOR tid ! 7 XOR tid ! 11]"
proof -
  obtain a b c d where ab: "addrBytes = [a, b, c, d]"
    using assms(5) by (rule length4_cases)
  have x: "addrBuf (xorAddress_cyclic addrBytes tid) =
      [ToUint8 a XOR 0x21 XOR tid ! 0 XOR tid ! 4 XOR tid ! 8,
       ToUint8 b XOR 0x12 XOR tid ! 1 XOR tid ! 5 XOR tid ! 9,
       ToUint8 c XOR 0xA4 XOR tid ! 2 XOR tid ! 6 XOR tid ! 10,
       ToUint8 d XOR 0x42 XOR tid ! 3 XOR tid ! 7 XOR tid ! 11]"
    using assms(6)
    by (simp add: xorAddress_cyclic_def Buffer_from_def ab xor_cookie_4 xor_cyclic_12 ac_simps)
  have h: "bind_err (writeUInt16BE (Buffer_alloc 20) STUN_ATTR_XOR_MAPPED_ADDRESS 0) f
      = f [0x00, 0x20, 0, 0, 0, 0, 0, 0, 0, 0, 0, 0, 0, 0, 0, 0, 0, 0, 0, 0]"
    for f :: "buffer \<Rightarrow> error + buffer"
    by (simp add: alloc_20 writeUInt16BE_def STUN_ATTR_XOR_MAPPED_ADDRESS_def bind_err_def
          ToUint8_def)
  show ?thesis
    unfolding createXorMappedAddress_cyclic_def h x
    using assms(1-4) xorPort_range [OF assms(3,4)]
    by (simp add: writeUInt16BE_def writeUInt8_def bind_err_def copy_def slice_buf_def ab
          ToUint8_numeral list_update_Cons_numeral Let_def)
qed

lemma hi_byte: "word_of_int (uint (w :: 16 word) div 2 ^ 8) = (ucast (drop_bit 8 w) :: byte)"
proof -
  have "uint w div 2 ^ 8 = drop_bit 8 (uint w)"
    by (simp add: drop_bit_eq_div)
  then show ?thesis
    by (simp only:) (rule bit_word_eqI, simp add: bit_simps)
qed

lemma lo_byte: "word_of_int (uint (w :: 16 word)) = (ucast w :: byte)"
  by (rule ucast_eq [symmetric])

lemma port_bytes:
  fixes p :: "16 word"
  shows "ToUint8 ((uint p XOR 0x2112) div 2 ^ 8) = ucast (drop_bit 8 (p XOR 0x2112))"
    and "ToUint8 (uint p XOR 0x2112) = ucast (p XOR 0x2112)"
proof -
  have u: "uint p XOR 0x2112 = uint (p XOR 0x2112)"
    by (simp add: uint_xor)
  show "ToUint8 ((uint p XOR 0x2112) div 2 ^ 8) = ucast (drop_bit 8 (p XOR 0x2112))"
    unfolding u ToUint8_def by (rule hi_byte)
  show "ToUint8 (uint p XOR 0x2112) = ucast (p XOR 0x2112)"
    unfolding u ToUint8_def by (rule lo_byte)
qed

lemma uint16_range:
  fixes p :: "16 word"
  shows "0 \<le> uint p" "uint p \<le> 65535"
  using uint_bounded [of p] by simp_all

lemma xorAddress_first4_state:
  assumes "length addrBytes = 4" "4 \<le> length tid"
  shows "\<not> dropped (xorAddress_first4 addrBytes tid)"
    and "length (addrBuf (xorAddress_first4 addrBytes tid)) = 4"
proof -
  obtain a b c d where ab: "addrBytes = [a, b, c, d]"
    using assms(1) by (rule length4_cases)
  show "\<not> dropped (xorAddress_first4 addrBytes tid)"
    using assms(2) by (simp add: xorAddress_first4_def Buffer_from_def ab xor_cookie_4 xor_first4_4)
  show "length (addrBuf (xorAddress_first4 addrBytes tid)) = 4"
    using assms(2) by (simp add: xorAddress_first4_def Buffer_from_def ab xor_cookie_4 xor_first4_4)
qed

lemma xorAddress_cyclic_state:
  assumes "length addrBytes = 4" "length tid = 12"
  shows "\<not> dropped (xorAddress_cyclic addrBytes tid)"
    and "length (addrBuf (xorAddress_cyclic addrBytes tid)) = 4"
proof -
  obtain a b c d where ab: "addrBytes = [a, b, c, d]"
    using assms(1) by (rule length4_cases)
  show "\<not> dropped (xorAddress_cyclic addrBytes tid)"
    using assms(2) by (simp add: xorAddress_cyclic_def Buffer_from_def ab xor_cookie_4 xor_cyclic_12)
  show "length (addrBuf (xorAddress_cyclic addrBytes tid)) = 4"
    using assms(2) by (simp add: xorAddress_cyclic_def Buffer_from_def ab xor_cookie_4 xor_cyclic_12)
qed

lemma word16_bytes_inject:
  fixes x y :: "16 word"
  assumes hi: "(ucast (drop_bit 8 x) :: byte) = ucast (drop_bit 8 y)"
    and lo: "(ucast x :: byte) = ucast y"
  shows "x = y"
proof (rule bit_word_eqI)
  fix n assume n: "n < LENGTH(16)"
  show "bit x n = bit y n"
  proof (cases "n < 8")
    case True
    from lo have "bit (ucast x :: byte) n = bit (ucast y :: byte) n" by simp
    with True show ?thesis by (simp add: bit_simps)
  next
    case False
    then have m: "n - 8 < 8" "8 + (n - 8) = n" using n by simp_all
    from hi have "bit (ucast (drop_bit 8 x) :: byte) (n - 8) = bit (ucast (drop_bit 8 y) :: byte) (n - 8)"
      by simp
    with m show ?thesis by (simp add: bit_simps)
  qed
qed

lemma xor_cancel_word:
  fixes a b c :: "'a::len word"
  shows "a XOR b = a XOR c \<longleftrightarrow> b = c"
  by (metis bit.xor_left_self)

lemma xor_cancel_right:
  fixes a b c :: "'a::len word"
  shows "b XOR a = c XOR a \<longleftrightarrow> b = c"
  by (metis bit.xor_left_self xor.commute)

lemma xor_cancel_word2:
  fixes a b c d :: "'a::len word"
  shows "a XOR b XOR c = a XOR b XOR d \<longleftrightarrow> c = d"
  by (simp only: xor_cancel_word)

lemma first4_bytes:
  fixes p :: "16 word" and octets tid :: buffer
  assumes "length octets = 4" and "4 \<le> length tid"
  shows "createXorMappedAddress_first4 1 (uint p) (map uint octets) tid =
           Inr [0x00, 0x20, 0x00, 0x08, 0x00, 0x01,
                ucast (drop_bit 8 (p XOR 0x2112)), ucast (p XOR 0x2112),
                octets ! 0 XOR 0x21 XOR tid ! 0,
                octets ! 1 XOR 0x12 XOR tid ! 1,
                octets ! 2 XOR 0xA4 XOR tid ! 2,
                octets ! 3 XOR 0x42 XOR tid ! 3]"
proof -
  have l: "length (map uint octets) = 4"
    using assms by simp
  have f: "(0::int) \<le> 1" "(1::int) \<le> 255" by simp_all
  have o: "ToUint8 (map uint octets ! 0) = octets ! 0" "ToUint8 (map uint octets ! 1) = octets ! 1"
    "ToUint8 (map uint octets ! 2) = octets ! 2" "ToUint8 (map uint octets ! 3) = octets ! 3"
    using assms(1) by (simp_all add: ToUint8_uint)
  have one: "ToUint8 1 = 1" by (simp add: ToUint8_def)
  show ?thesis
    unfolding first4_result [OF f uint16_range l assms(2)] port_bytes o one
    by (rule refl)
qed

lemma cyclic_bytes:
  fixes p :: "16 word" and octets tid :: buffer
  assumes "length octets = 4" and "length tid = 12"
  shows "createXorMappedAddress_cyclic 1 (uint p) (map uint octets) tid =
           Inr [0x00, 0x20, 0x00, 0x08, 0x00, 0x01,
                ucast (drop_bit 8 (p XOR 0x2112)), ucast (p XOR 0x2112),
                octets ! 0 XOR 0x21 XOR tid ! 0 XOR tid ! 4 XOR tid ! 8,
                octets ! 1 XOR 0x12 XOR tid ! 1 XOR tid ! 5 XOR tid ! 9,
                octets ! 2 XOR 0xA4 XOR tid ! 2 XOR tid ! 6 XOR tid ! 10,
                octets ! 3 XOR 0x42 XOR tid ! 3 XOR tid ! 7 XOR tid ! 11]"
proof -
  have l: "length (map uint octets) = 4"
    using assms by simp
  have f: "(0::int) \<le> 1" "(1::int) \<le> 255" by simp_all
  have o: "ToUint8 (map uint octets ! 0) = octets ! 0" "ToUint8 (map uint octets ! 1) = octets ! 1"
    "ToUint8 (map uint octets ! 2) = octets ! 2" "ToUint8 (map uint octets ! 3) = octets ! 3"
    using assms(1) by (simp_all add: ToUint8_uint)
  have one: "ToUint8 1 = 1" by (simp add: ToUint8_def)
  show ?thesis
    unfolding cyclic_result [OF f uint16_range l assms(2)] port_bytes o one
    by (rule refl)
qed

lemma port_bytes_differ:
  fixes p p' :: "16 word"
  assumes "p' \<noteq> p"
  shows "(ucast (drop_bit 8 (p' XOR 0x2112)) :: byte) \<noteq> ucast (drop_bit 8 (p XOR 0x2112))
       \<or> (ucast (p' XOR 0x2112) :: byte) \<noteq> ucast (p XOR 0x2112)"
proof (rule ccontr)
  assume "\<not> ?thesis"
  then have "p' XOR 0x2112 = p XOR 0x2112"
    by (intro word16_bytes_inject) simp_all
  then have "p' = p"
    by (metis bit.xor_left_self xor.commute)
  with assms show False by simp
qed

lemma first4_update_ignored:
  fixes p :: "16 word" and octets tid :: buffer
  assumes "length octets = 4" and "4 \<le> length tid" and "4 \<le> j"
  shows "createXorMappedAddress_first4 1 (uint p) (map uint octets) (tid[j := w])
       = createXorMappedAddress_first4 1 (uint p) (map uint octets) tid"
proof -
  have l: "4 \<le> length (tid[j := w])" using assms(2) by simp
  show ?thesis
    unfolding first4_bytes [OF assms(1) l] first4_bytes [OF assms(1,2)]
    using assms(3) by simp
qed

lemma first4_sensitive:
  fixes p p' :: "16 word" and octets tid :: buffer
  assumes "length octets = 4" and "4 \<le> length tid"
  shows "p' \<noteq> p \<Longrightarrow>
           createXorMappedAddress_first4 1 (uint p') (map uint octets) tid
             \<noteq> createXorMappedAddress_first4 1 (uint p) (map uint octets) tid"
    and "k < 4 \<Longrightarrow> v \<noteq> octets ! k \<Longrightarrow>
           createXorMappedAddress_first4 1 (uint p) (map uint (octets[k := v])) tid
             \<noteq> createXorMappedAddress_first4 1 (uint p) (map uint octets) tid"
    and "k < 4 \<Longrightarrow> v \<noteq> tid ! k \<Longrightarrow>
           createXorMappedAddress_first4 1 (uint p) (map uint octets) (tid[k := v])
             \<noteq> createXorMappedAddress_first4 1 (uint p) (map uint octets) tid"
proof -
  have lo: "length (octets[k := v]) = 4" and lt: "4 \<le> length (tid[k := v])"
    using assms by simp_all
  have k: "k = 0 \<or> k = 1 \<or> k = 2 \<or> k = 3" if "k < 4"
    using that by arith
  have ne: "tid \<noteq> []" using assms(2) by auto
  show "createXorMappedAddress_first4 1 (uint p') (map uint octets) tid
          \<noteq> createXorMappedAddress_first4 1 (uint p) (map uint octets) tid" if "p' \<noteq> p"
    unfolding first4_bytes [OF assms]
    using port_bytes_differ [OF that] by (simp del: drop_bit_xor)
  show "createXorMappedAddress_first4 1 (uint p) (map uint (octets[k := v])) tid
          \<noteq> createXorMappedAddress_first4 1 (uint p) (map uint octets) tid"
    if "k < 4" "v \<noteq> octets ! k"
    unfolding first4_bytes [OF lo assms(2)] first4_bytes [OF assms]
    using k [OF that(1)] that(2) assms(1)
    by (auto simp add: xor_cancel_right)
  show "createXorMappedAddress_first4 1 (uint p) (map uint octets) (tid[k := v])
          \<noteq> createXorMappedAddress_first4 1 (uint p) (map uint octets) tid"
    if "k < 4" "v \<noteq> tid ! k"
    unfolding first4_bytes [OF assms(1) lt] first4_bytes [OF assms]
    using k [OF that(1)] that(2) assms(2) ne
    by (auto simp add: xor_cancel_word2)
qed


lemma cyclic_sensitive:
  fixes p p' :: "16 word" and octets tid :: buffer
  assumes "length octets = 4" and "length tid = 12"
  shows "p' \<noteq> p \<Longrightarrow>
           createXorMappedAddress_cyclic 1 (uint p') (map uint octets) tid
             \<noteq> createXorMappedAddress_cyclic 1 (uint p) (map uint octets) tid"
    and "k < 4 \<Longrightarrow> v \<noteq> octets ! k \<Longrightarrow>
           createXorMappedAddress_cyclic 1 (uint p) (map uint (octets[k := v])) tid
             \<noteq> createXorMappedAddress_cyclic 1 (uint p) (map uint octets) tid"
    and "i < 12 \<Longrightarrow> v \<noteq> tid ! i \<Longrightarrow>
           createXorMappedAddress_cyclic 1 (uint p) (map uint octets) (tid[i := v])
             \<noteq> createXorMappedAddress_cyclic 1 (uint p) (map uint octets) tid"
proof -
  have lo: "length (octets[k := v]) = 4" and lt: "length (tid[i := v]) = 12"
    using assms by simp_all
  have k: "k = 0 \<or> k = 1 \<or> k = 2 \<or> k = 3" if "k < 4"
    using that by arith
  have i: "i = 0 \<or> i = 1 \<or> i = 2 \<or> i = 3 \<or> i = 4 \<or> i = 5 \<or> i = 6 \<or> i = 7
         \<or> i = 8 \<or> i = 9 \<or> i = 10 \<or> i = 11" if "i < 12"
    using that by arith
  show "createXorMappedAddress_cyclic 1 (uint p') (map uint octets) tid
          \<noteq> createXorMappedAddress_cyclic 1 (uint p) (map uint octets) tid" if "p' \<noteq> p"
    unfolding cyclic_bytes [OF assms]
    using port_bytes_differ [OF that] by (simp del: drop_bit_xor)
  show "createXorMappedAddress_cyclic 1 (uint p) (map uint (octets[k := v])) tid
          \<noteq> createXorMappedAddress_cyclic 1 (uint p) (map uint octets) tid"
    if "k < 4" "v \<noteq> octets ! k"
    unfolding cyclic_bytes [OF lo assms(2)] cyclic_bytes [OF assms]
    using k [OF that(1)] that(2) assms(1)
    by (auto simp add: xor_cancel_right)
  show "createXorMappedAddress_cyclic 1 (uint p) (map uint octets) (tid[i := v])
          \<noteq> createXorMappedAddress_cyclic 1 (uint p) (map uint octets) tid"
    if "i < 12" "v \<noteq> tid ! i"
    unfolding cyclic_bytes [OF assms(1) lt] cyclic_bytes [OF assms]
    using i [OF that(1)] that(2) assms(2)
    by (auto simp add: xor_cancel_word xor_cancel_right)
qed

text \<open>
  Claim C1, as the code has it. For every 16-bit port, every four octets and every 12-byte
  transaction id, \<open>createXorMappedAddress\<close> (called with family 1) returns the twelve
  bytes: type \<open>00 20\<close>, length \<open>00 08\<close>, reserved \<open>00\<close>, family \<open>01\<close>, the port XOR
  \<open>0x2112\<close> big-endian, and four address bytes.
  In \<open>part_000\<close> and \<open>part_001\<close> address byte \<open>i\<close> is octet \<open>i\<close> XOR cookie byte \<open>i\<close>
  XOR transaction-id byte \<open>i\<close>: only the first four bytes of the transaction id take part.
  In \<open>src/stun-server.ts\<close> all twelve take part, cyclically: address byte \<open>i\<close> is also
  XORed with transaction-id bytes \<open>i + 4\<close> and \<open>i + 8\<close>.
\<close>

theorem createXorMappedAddress_bytes:
  fixes p :: "16 word" and octets tid :: buffer
  assumes "length octets = 4" and "length tid = 12"
  shows "createXorMappedAddress_first4 1 (uint p) (map uint octets) tid =
           Inr [0x00, 0x20, 0x00, 0x08, 0x00, 0x01,
                ucast (drop_bit 8 (p XOR 0x2112)), ucast (p XOR 0x2112),
                octets ! 0 XOR 0x21 XOR tid ! 0,
                octets ! 1 XOR 0x12 XOR tid ! 1,
                octets ! 2 XOR 0xA4 XOR tid ! 2,
                octets ! 3 XOR 0x42 XOR tid ! 3]
       \<and> createXorMappedAddress_cyclic 1 (uint p) (map uint octets) tid =
           Inr [0x00, 0x20, 0x00, 0x08, 0x00, 0x01,
                ucast (drop_bit 8 (p XOR 0x2112)), ucast (p XOR 0x2112),
                octets ! 0 XOR 0x21 XOR tid ! 0 XOR tid ! 4 XOR tid ! 8,
                octets ! 1 XOR 0x12 XOR tid ! 1 XOR tid ! 5 XOR tid ! 9,
                octets ! 2 XOR 0xA4 XOR tid ! 2 XOR tid ! 6 XOR tid ! 10,
                octets ! 3 XOR 0x42 XOR tid ! 3 XOR tid ! 7 XOR tid ! 11]"
proof -
  have "4 \<le> length tid" using assms(2) by simp
  then show ?thesis
    by (intro conjI first4_bytes cyclic_bytes assms)
qed

theorem createXorMappedAddress_bytes_witness:
  "createXorMappedAddress_first4 1 (uint (54321 :: 16 word)) (map uint [203, 0, 113, 7 :: byte])
       [0x00, 0x11, 0x22, 0x33, 0x44, 0x55, 0x66, 0x77, 0x88, 0x99, 0xAA, 0xBB]
     = Inr [0x00, 0x20, 0x00, 0x08, 0x00, 0x01, 0xF5, 0x23, 0xEA, 0x03, 0xF7, 0x76]
   \<and> createXorMappedAddress_cyclic 1 (uint (54321 :: 16 word)) (map uint [203, 0, 113, 7 :: byte])
       [0x00, 0x11, 0x22, 0x33, 0x44, 0x55, 0x66, 0x77, 0x88, 0x99, 0xAA, 0xBB]
     = Inr [0x00, 0x20, 0x00, 0x08, 0x00, 0x01, 0xF5, 0x23, 0x26, 0xCF, 0x3B, 0xBA]"
  using createXorMappedAddress_bytes [of "[203, 0, 113, 7]"
      "[0x00, 0x11, 0x22, 0x33, 0x44, 0x55, 0x66, 0x77, 0x88, 0x99, 0xAA, 0xBB]" 54321]
  by simp

text \<open>
  Claim C1 as stated fails in \<open>src/stun-server.ts\<close>: for port 54321, address 203.0.113.7
  and transaction id \<open>00 11 22 ... BB\<close> the address bytes are not those the claim gives.
\<close>

theorem createXorMappedAddress_cyclic_counterexample:
  "createXorMappedAddress_cyclic 1 54321 [203, 0, 113, 7]
       [0x00, 0x11, 0x22, 0x33, 0x44, 0x55, 0x66, 0x77, 0x88, 0x99, 0xAA, 0xBB]
     \<noteq> Inr [0x00, 0x20, 0x00, 0x08, 0x00, 0x01, 0xF5, 0x23,
            203 XOR 0x21 XOR 0x00, 0 XOR 0x12 XOR 0x11, 113 XOR 0xA4 XOR 0x22, 7 XOR 0x42 XOR 0x33]"
  by (simp add: cyclic_result ToUint8_numeral)

subsection \<open>Totality\<close>

text \<open>
  Claim C9. For a port in 0..65535 the XORed port \<open>port ^ (STUN_MAGIC_COOKIE >> 16)\<close> is in
  0..65535 again, and for an address of four octets and a 12-byte transaction id the function
  returns a buffer of 12 bytes: no write method throws, no indexed store falls outside
  \<open>addrBuf\<close>, and \<open>addrBuf\<close> has the four bytes that fit at offset 8. In both versions.
\<close>

theorem createXorMappedAddress_total:
  assumes "0 \<le> port" and "port \<le> 65535"
    and "length addrBytes = 4" and "\<forall>x \<in> set addrBytes. 0 \<le> x \<and> x \<le> 255"
    and "length tid = 12"
  shows "0 \<le> js_xor port (js_sar STUN_MAGIC_COOKIE 16)
       \<and> js_xor port (js_sar STUN_MAGIC_COOKIE 16) \<le> 65535
       \<and> (\<exists>buf. createXorMappedAddress_first4 1 port addrBytes tid = Inr buf \<and> length buf = 12)
       \<and> \<not> dropped (xorAddress_first4 addrBytes tid)
       \<and> length (addrBuf (xorAddress_first4 addrBytes tid)) = 4
       \<and> (\<exists>buf. createXorMappedAddress_cyclic 1 port addrBytes tid = Inr buf \<and> length buf = 12)
       \<and> \<not> dropped (xorAddress_cyclic addrBytes tid)
       \<and> length (addrBuf (xorAddress_cyclic addrBytes tid)) = 4"
proof -
  have f: "(0::int) \<le> 1" "(1::int) \<le> 255" by simp_all
  have t: "4 \<le> length tid" using assms(5) by simp
  note xp = xorPort_range [OF assms(1,2)]
  have "0 \<le> js_xor port (js_sar STUN_MAGIC_COOKIE 16)"
    "js_xor port (js_sar STUN_MAGIC_COOKIE 16) \<le> 65535"
    unfolding xp(1) by (rule xp(2), rule xp(3))
  moreover have "\<exists>buf. createXorMappedAddress_first4 1 port addrBytes tid = Inr buf \<and> length buf = 12"
    unfolding first4_result [OF f assms(1,2,3) t] by simp
  moreover have "\<exists>buf. createXorMappedAddress_cyclic 1 port addrBytes tid = Inr buf \<and> length buf = 12"
    unfolding cyclic_result [OF f assms(1,2,3,5)] by simp
  ultimately show ?thesis
    using xorAddress_first4_state [OF assms(3) t] xorAddress_cyclic_state [OF assms(3,5)]
    by simp
qed

theorem createXorMappedAddress_total_witness:
  "(\<exists>buf. createXorMappedAddress_first4 1 54321 [203, 0, 113, 7]
        [0x00, 0x11, 0x22, 0x33, 0x44, 0x55, 0x66, 0x77, 0x88, 0x99, 0xAA, 0xBB] = Inr buf
      \<and> length buf = 12)
   \<and> (\<exists>buf. createXorMappedAddress_cyclic 1 54321 [203, 0, 113, 7]
        [0x00, 0x11, 0x22, 0x33, 0x44, 0x55, 0x66, 0x77, 0x88, 0x99, 0xAA, 0xBB] = Inr buf
      \<and> length buf = 12)"
  using createXorMappedAddress_total [of 54321 "[203, 0, 113, 7]"
      "[0x00, 0x11, 0x22, 0x33, 0x44, 0x55, 0x66, 0x77, 0x88, 0x99, 0xAA, 0xBB]"]
  by simp

subsection \<open>Which input bytes the attribute depends on\<close>

text \<open>
  Claim C8, as the code has it. The function has no state, so equal inputs give equal
  outputs. A change of the port, of one address octet, or of one of the first four bytes of
  the transaction id changes the output. In \<open>part_000\<close> and \<open>part_001\<close> a change of any
  of bytes 4 to 11 of the transaction id leaves the output as it is; in
  \<open>src/stun-server.ts\<close> a change of any one of the twelve bytes changes it.
\<close>

theorem createXorMappedAddress_one_byte_change:
  fixes p p' :: "16 word" and octets tid :: buffer
  assumes "length octets = 4" and "length tid = 12"
  shows "(p' \<noteq> p \<longrightarrow>
           createXorMappedAddress_first4 1 (uint p') (map uint octets) tid
             \<noteq> createXorMappedAddress_first4 1 (uint p) (map uint octets) tid)
       \<and> (k < 4 \<longrightarrow> v \<noteq> octets ! k \<longrightarrow>
           createXorMappedAddress_first4 1 (uint p) (map uint (octets[k := v])) tid
             \<noteq> createXorMappedAddress_first4 1 (uint p) (map uint octets) tid)
       \<and> (k < 4 \<longrightarrow> w \<noteq> tid ! k \<longrightarrow>
           createXorMappedAddress_first4 1 (uint p) (map uint octets) (tid[k := w])
             \<noteq> createXorMappedAddress_first4 1 (uint p) (map uint octets) tid)
       \<and> (4 \<le> j \<longrightarrow>
           createXorMappedAddress_first4 1 (uint p) (map uint octets) (tid[j := u])
             = createXorMappedAddress_first4 1 (uint p) (map uint octets) tid)
       \<and> (p' \<noteq> p \<longrightarrow>
           createXorMappedAddress_cyclic 1 (uint p') (map uint octets) tid
             \<noteq> createXorMappedAddress_cyclic 1 (uint p) (map uint octets) tid)
       \<and> (k < 4 \<longrightarrow> v \<noteq> octets ! k \<longrightarrow>
           createXorMappedAddress_cyclic 1 (uint p) (map uint (octets[k := v])) tid
             \<noteq> createXorMappedAddress_cyclic 1 (uint p) (map uint octets) tid)
       \<and> (i < 12 \<longrightarrow> x \<noteq> tid ! i \<longrightarrow>
           createXorMappedAddress_cyclic 1 (uint p) (map uint octets) (tid[i := x])
             \<noteq> createXorMappedAddress_cyclic 1 (uint p) (map uint octets) tid)"
proof -
  have t: "4 \<le> length tid" using assms(2) by simp
  show ?thesis
    by (intro conjI impI)
      (simp_all add: first4_sensitive [OF assms(1) t] first4_update_ignored [OF assms(1) t]
         cyclic_sensitive [OF assms])
qed

theorem createXorMappedAddress_one_byte_change_witness:
  "createXorMappedAddress_first4 1 (uint (54322 :: 16 word)) (map uint [203, 0, 113, 7 :: byte])
       [0x00, 0x11, 0x22, 0x33, 0x44, 0x55, 0x66, 0x77, 0x88, 0x99, 0xAA, 0xBB]
     \<noteq> createXorMappedAddress_first4 1 (uint (54321 :: 16 word)) (map uint [203, 0, 113, 7 :: byte])
       [0x00, 0x11, 0x22, 0x33, 0x44, 0x55, 0x66, 0x77, 0x88, 0x99, 0xAA, 0xBB]
   \<and> createXorMappedAddress_first4 1 (uint (54321 :: 16 word)) (map uint [203, 0, 114, 7 :: byte])
       [0x00, 0x11, 0x22, 0x33, 0x44, 0x55, 0x66, 0x77, 0x88, 0x99, 0xAA, 0xBB]
     \<noteq> createXorMappedAddress_first4 1 (uint (54321 :: 16 word)) (map uint [203, 0, 113, 7 :: byte])
       [0x00, 0x11, 0x22, 0x33, 0x44, 0x55, 0x66, 0x77, 0x88, 0x99, 0xAA, 0xBB]
   \<and> createXorMappedAddress_first4 1 (uint (54321 :: 16 word)) (map uint [203, 0, 113, 7 :: byte])
       [0x00, 0x11, 0xFF, 0x33, 0x44, 0x55, 0x66, 0x77, 0x88, 0x99, 0xAA, 0xBB]
     \<noteq> createXorMappedAddress_first4 1 (uint (54321 :: 16 word)) (map uint [203, 0, 113, 7 :: byte])
       [0x00, 0x11, 0x22, 0x33, 0x44, 0x55, 0x66, 0x77, 0x88, 0x99, 0xAA, 0xBB]
   \<and> createXorMappedAddress_first4 1 (uint (54321 :: 16 word)) (map uint [203, 0, 113, 7 :: byte])
       [0x00, 0x11, 0x22, 0x33, 0x44, 0x55, 0x66, 0x01, 0x88, 0x99, 0xAA, 0xBB]
     = createXorMappedAddress_first4 1 (uint (54321 :: 16 word)) (map uint [203, 0, 113, 7 :: byte])
       [0x00, 0x11, 0x22, 0x33, 0x44, 0x55, 0x66, 0x77, 0x88, 0x99, 0xAA, 0xBB]
   \<and> createXorMappedAddress_cyclic 1 (uint (54322 :: 16 word)) (map uint [203, 0, 113, 7 :: byte])
       [0x00, 0x11, 0x22, 0x33, 0x44, 0x55, 0x66, 0x77, 0x88, 0x99, 0xAA, 0xBB]
     \<noteq> createXorMappedAddress_cyclic 1 (uint (54321 :: 16 word)) (map uint [203, 0, 113, 7 :: byte])
       [0x00, 0x11, 0x22, 0x33, 0x44, 0x55, 0x66, 0x77, 0x88, 0x99, 0xAA, 0xBB]
   \<and> createXorMappedAddress_cyclic 1 (uint (54321 :: 16 word)) (map uint [203, 0, 114, 7 :: byte])
       [0x00, 0x11, 0x22, 0x33, 0x44, 0x55, 0x66, 0x77, 0x88, 0x99, 0xAA, 0xBB]
     \<noteq> createXorMappedAddress_cyclic 1 (uint (54321 :: 16 word)) (map uint [203, 0, 113, 7 :: byte])
       [0x00, 0x11, 0x22, 0x33, 0x44, 0x55, 0x66, 0x77, 0x88, 0x99, 0xAA, 0xBB]
   \<and> createXorMappedAddress_cyclic 1 (uint (54321 :: 16 word)) (map uint [203, 0, 113, 7 :: byte])
       [0x00, 0x11, 0x22, 0x33, 0x44, 0x55, 0x66, 0x77, 0x88, 0x00, 0xAA, 0xBB]
     \<noteq> createXorMappedAddress_cyclic 1 (uint (54321 :: 16 word)) (map uint [203, 0, 113, 7 :: byte])
       [0x00, 0x11, 0x22, 0x33, 0x44, 0x55, 0x66, 0x77, 0x88, 0x99, 0xAA, 0xBB]"
  using createXorMappedAddress_one_byte_change [of "[203, 0, 113, 7]"
      "[0x00, 0x11, 0x22, 0x33, 0x44, 0x55, 0x66, 0x77, 0x88, 0x99, 0xAA, 0xBB]"
      54322 54321 2 114 "0xFF" 7 "0x01" 9 "0x00"]
  by simp

text \<open>
  Claim C8 as stated fails in \<open>part_000\<close> and \<open>part_001\<close>: two transaction ids that
  differ in byte 4 only give the same attribute.
\<close>

theorem createXorMappedAddress_first4_counterexample:
  "[0x00, 0x11, 0x22, 0x33, 0xFF, 0x55, 0x66, 0x77, 0x88, 0x99, 0xAA, 0xBB]
     \<noteq> [0x00, 0x11, 0x22, 0x33, 0x44, 0x55, 0x66, 0x77, 0x88, 0x99, 0xAA, 0xBB :: byte]
   \<and> createXorMappedAddress_first4 1 54321 [203, 0, 113, 7]
       [0x00, 0x11, 0x22, 0x33, 0xFF, 0x55, 0x66, 0x77, 0x88, 0x99, 0xAA, 0xBB]
     = createXorMappedAddress_first4 1 54321 [203, 0, 113, 7]
       [0x00, 0x11, 0x22, 0x33, 0x44, 0x55, 0x66, 0x77, 0x88, 0x99, 0xAA, 0xBB]"
  by (simp add: first4_result)

section \<open>Properties of the response\<close>

lemma writeUInt16BE_header:
  assumes "0 \<le> v" "v \<le> 65535"
  shows "writeUInt16BE (b0 # b1 # rest) v 0 = Inr (ToUint8 (v div 2 ^ 8) # ToUint8 v # rest)"
    and "writeUInt16BE (b0 # b1 # b2 # b3 # rest) v 2
           = Inr (b0 # b1 # ToUint8 (v div 2 ^ 8) # ToUint8 v # rest)"
  using assms by (simp_all add: writeUInt16BE_def list_update_Cons_numeral)

lemma writeUInt32BE_cookie:
  "writeUInt32BE (b0 # b1 # b2 # b3 # b4 # b5 # b6 # b7 # rest) STUN_MAGIC_COOKIE 4
     = Inr (b0 # b1 # b2 # b3 # 0x21 # 0x12 # 0xA4 # 0x42 # rest)"
  by (simp add: writeUInt32BE_def STUN_MAGIC_COOKIE_def list_update_Cons_numeral ToUint8_def)

lemma copy_tid:
  assumes "length tid = 12"
  shows "copy tid [b0, b1, b2, b3, b4, b5, b6, b7, 0, 0, 0, 0, 0, 0, 0, 0, 0, 0, 0, 0] 8
     = [b0, b1, b2, b3, b4, b5, b6, b7] @ tid"
  using assms by (simp add: copy_def)

lemma createStunResponse_result:
  assumes "0 \<le> type" "type \<le> 65535" "length tid = 12" "length (concat attrs) \<le> 65535"
  shows "createStunResponse type tid attrs =
     Inr ([ToUint8 (type div 2 ^ 8), ToUint8 type,
           ToUint8 (int (length (concat attrs)) div 2 ^ 8), ToUint8 (int (length (concat attrs))),
           0x21, 0x12, 0xA4, 0x42] @ tid @ concat attrs)"
proof -
  have n: "0 \<le> int (length (concat attrs))" "int (length (concat attrs)) \<le> 65535"
    using assms(4) by simp_all
  show ?thesis
    unfolding createStunResponse_def Buffer_concat_def Let_def alloc_20
    by (simp add: bind_err_def writeUInt16BE_header [OF assms(1,2)] writeUInt16BE_header [OF n]
          writeUInt32BE_cookie copy_tid [OF assms(3)])
qed


lemma attr_length:
  assumes "0 \<le> port" "port \<le> 65535" "length addrBytes = 4" "length tid = 12"
  shows "\<exists>attr. createXorMappedAddress_first4 1 port addrBytes tid = Inr attr \<and> length attr = 12"
    and "\<exists>attr. createXorMappedAddress_cyclic 1 port addrBytes tid = Inr attr \<and> length attr = 12"
proof -
  have f: "(0::int) \<le> 1" "(1::int) \<le> 255" by simp_all
  have t: "4 \<le> length tid" using assms(4) by simp
  show "\<exists>attr. createXorMappedAddress_first4 1 port addrBytes tid = Inr attr \<and> length attr = 12"
    unfolding first4_result [OF f assms(1,2,3) t] by simp
  show "\<exists>attr. createXorMappedAddress_cyclic 1 port addrBytes tid = Inr attr \<and> length attr = 12"
    unfolding cyclic_result [OF f assms] by simp
qed

lemma binding_response_header:
  assumes "length tid = 12" "length attr = 12"
  shows "createStunResponse STUN_BINDING_RESPONSE tid [attr]
     = Inr ([0x01, 0x01, 0x00, 0x0C, 0x21, 0x12, 0xA4, 0x42] @ tid @ attr)"
proof -
  have "createStunResponse 0x0101 tid [attr] =
     Inr ([ToUint8 (0x0101 div 2 ^ 8), ToUint8 0x0101,
           ToUint8 (int (length (concat [attr])) div 2 ^ 8), ToUint8 (int (length (concat [attr]))),
           0x21, 0x12, 0xA4, 0x42] @ tid @ concat [attr])"
    using assms by (intro createStunResponse_result) simp_all
  then show ?thesis
    using assms(2) by (simp add: STUN_BINDING_RESPONSE_def ToUint8_def)
qed

text \<open>
  Claim C7, as the code has it. For a message type in 0..65535, a 12-byte transaction id and
  attributes of at most 65535 bytes in total (what the 16-bit length field can hold),
  \<open>createStunResponse\<close> returns the 20-byte header (type, total length of the attributes,
  the magic cookie, the transaction id unchanged) followed by the attributes in their order.
  In particular the Binding Response built from the one XOR-MAPPED-ADDRESS attribute has type
  \<open>01 01\<close>, length \<open>00 0C\<close> and the transaction id of the request.
\<close>

theorem createStunResponse_layout:
  assumes "0 \<le> type" and "type \<le> 65535" and "length tid = 12"
    and "sum_list (map length attrs) \<le> 65535"
  shows "createStunResponse type tid attrs =
           Inr ([ToUint8 (type div 2 ^ 8), ToUint8 type,
                 ToUint8 (int (sum_list (map length attrs)) div 2 ^ 8),
                 ToUint8 (int (sum_list (map length attrs))),
                 0x21, 0x12, 0xA4, 0x42] @ tid @ concat attrs)
       \<and> (0 \<le> port \<and> port \<le> 65535 \<and> length addrBytes = 4 \<longrightarrow>
            (\<exists>attr. createXorMappedAddress_first4 1 port addrBytes tid = Inr attr
               \<and> binding_response_first4 port addrBytes tid
                   = Inr ([0x01, 0x01, 0x00, 0x0C, 0x21, 0x12, 0xA4, 0x42] @ tid @ attr))
          \<and> (\<exists>attr. createXorMappedAddress_cyclic 1 port addrBytes tid = Inr attr
               \<and> binding_response_cyclic port addrBytes tid
                   = Inr ([0x01, 0x01, 0x00, 0x0C, 0x21, 0x12, 0xA4, 0x42] @ tid @ attr)))"
proof -
  have "length (concat attrs) \<le> 65535"
    using assms(4) by (simp add: length_concat)
  then have 1: "createStunResponse type tid attrs =
           Inr ([ToUint8 (type div 2 ^ 8), ToUint8 type,
                 ToUint8 (int (sum_list (map length attrs)) div 2 ^ 8),
                 ToUint8 (int (sum_list (map length attrs))),
                 0x21, 0x12, 0xA4, 0x42] @ tid @ concat attrs)"
    using createStunResponse_result [OF assms(1,2,3)] by (simp add: length_concat)
  have 2: "\<exists>attr. createXorMappedAddress_first4 1 port addrBytes tid = Inr attr
               \<and> binding_response_first4 port addrBytes tid
                   = Inr ([0x01, 0x01, 0x00, 0x0C, 0x21, 0x12, 0xA4, 0x42] @ tid @ attr)"
    if pr: "0 \<le> port" "port \<le> 65535" "length addrBytes = 4"
  proof -
    obtain attr where a: "createXorMappedAddress_first4 1 port addrBytes tid = Inr attr"
        "length attr = 12"
      using attr_length(1) [OF pr assms(3)] by blast
    then show ?thesis
      by (simp add: binding_response_first4_def bind_err_def
            binding_response_header [OF assms(3) a(2)])
  qed
  have 3: "\<exists>attr. createXorMappedAddress_cyclic 1 port addrBytes tid = Inr attr
               \<and> binding_response_cyclic port addrBytes tid
                   = Inr ([0x01, 0x01, 0x00, 0x0C, 0x21, 0x12, 0xA4, 0x42] @ tid @ attr)"
    if pr: "0 \<le> port" "port \<le> 65535" "length addrBytes = 4"
  proof -
    obtain attr where a: "createXorMappedAddress_cyclic 1 port addrBytes tid = Inr attr"
        "length attr = 12"
      using attr_length(2) [OF pr assms(3)] by blast
    then show ?thesis
      by (simp add: binding_response_cyclic_def bind_err_def
            binding_response_header [OF assms(3) a(2)])
  qed
  from 1 2 3 show ?thesis by blast
qed

theorem createStunResponse_layout_witness:
  "createStunResponse 0x0101 [0x00, 0x11, 0x22, 0x33, 0x44, 0x55, 0x66, 0x77, 0x88, 0x99, 0xAA, 0xBB]
       [[0x01, 0x02], [], [0x03]]
     = Inr [0x01, 0x01, 0x00, 0x03, 0x21, 0x12, 0xA4, 0x42,
            0x00, 0x11, 0x22, 0x33, 0x44, 0x55, 0x66, 0x77, 0x88, 0x99, 0xAA, 0xBB,
            0x01, 0x02, 0x03]
   \<and> (\<exists>attr. createXorMappedAddress_first4 1 54321 [203, 0, 113, 7]
           [0x00, 0x11, 0x22, 0x33, 0x44, 0x55, 0x66, 0x77, 0x88, 0x99, 0xAA, 0xBB] = Inr attr
        \<and> binding_response_first4 54321 [203, 0, 113, 7]
           [0x00, 0x11, 0x22, 0x33, 0x44, 0x55, 0x66, 0x77, 0x88, 0x99, 0xAA, 0xBB]
          = Inr ([0x01, 0x01, 0x00, 0x0C, 0x21, 0x12, 0xA4, 0x42,
                  0x00, 0x11, 0x22, 0x33, 0x44, 0x55, 0x66, 0x77, 0x88, 0x99, 0xAA, 0xBB] @ attr))"
  using createStunResponse_layout [of "0x0101"
      "[0x00, 0x11, 0x22, 0x33, 0x44, 0x55, 0x66, 0x77, 0x88, 0x99, 0xAA, 0xBB]"
      "[[0x01, 0x02], [], [0x03]]" 54321 "[203, 0, 113, 7]"]
  by (simp add: ToUint8_def)

text \<open>
  Claim C7 as stated fails for attributes of 65536 bytes: the length does not fit the field,
  and \<open>writeUInt16BE\<close> throws.
\<close>

theorem createStunResponse_overlong_counterexample:
  "createStunResponse 0x0101 [0x00, 0x11, 0x22, 0x33, 0x44, 0x55, 0x66, 0x77, 0x88, 0x99, 0xAA, 0xBB]
       [replicate 65536 0] = Inl RangeError"
  by (simp add: createStunResponse_def Buffer_concat_def bind_err_def writeUInt16BE_def
        Buffer_alloc_def)

section \<open>Properties of the rate limiter\<close>

lemma run_timers_none: "timers rl = [] \<Longrightarrow> run_timers now rl = rl"
  by (simp add: run_timers_def)

lemma run_timers_one:
  assumes "timers rl = [due]"
  shows "run_timers now rl =
     (if due \<le> now then rl\<lparr> isPaused := False, timestamps := [], timers := [] \<rparr> else rl)"
  using assms by (simp add: run_timers_def resume_def)

lemma fire_timer_none: "timers rl = [] \<Longrightarrow> fire_timer rl = rl"
  by (simp add: fire_timer_def)

lemma fire_timer_one:
  assumes "timers rl = [due]"
  shows "fire_timer rl = rl\<lparr> isPaused := False, timestamps := [], timers := [] \<rparr>"
  using assms by (simp add: fire_timer_def resume_def)

lemma check_paused: "isPaused rl \<Longrightarrow> check now rl = (False, rl)"
  by (simp add: check_def)

lemma check_open:
  assumes "\<not> isPaused rl"
  shows "check now rl =
     (let ts' = filter (\<lambda>ts. now - ts < timeWindow rl) (timestamps rl) @ [now]
      in if maxRequests rl < int (length ts')
         then (False, rl\<lparr> timestamps := ts', isPaused := True,
                            timers := timers rl @ [now + pauseDuration rl] \<rparr>)
         else (True, rl\<lparr> timestamps := ts' \<rparr>))"
  using assms by (simp add: check_def triggerPause_def Let_def)

lemma limiter_inv_check: "limiter_inv rl \<Longrightarrow> limiter_inv (snd (check now rl))"
  by (cases "isPaused rl") (auto simp add: check_paused check_open limiter_inv_def Let_def)

lemma limiter_inv_timers:
  assumes "limiter_inv rl"
  shows "limiter_inv (run_timers now rl)" and "limiter_inv (fire_timer rl)"
proof -
  show "limiter_inv (run_timers now rl)"
  proof (cases "isPaused rl")
    case True
    with assms obtain due where "timers rl = [due]"
      by (auto simp add: limiter_inv_def length_Suc_conv)
    with True assms show ?thesis
      by (simp add: run_timers_one limiter_inv_def)
  next
    case False
    with assms show ?thesis
      by (simp add: limiter_inv_def run_timers_none)
  qed
  show "limiter_inv (fire_timer rl)"
  proof (cases "isPaused rl")
    case True
    with assms obtain due where "timers rl = [due]"
      by (auto simp add: limiter_inv_def length_Suc_conv)
    then show ?thesis
      by (simp add: fire_timer_one limiter_inv_def)
  next
    case False
    with assms show ?thesis
      by (simp add: limiter_inv_def fire_timer_none)
  qed
qed

lemma reachable_inv: "reachable rl \<Longrightarrow> limiter_inv rl"
proof (induction rule: reachable.induct)
  case (init m w p)
  show ?case by (simp add: limiter_inv_def new_RateLimiter_def)
next
  case (after_check rl now)
  then show ?case by (simp add: limiter_inv_check)
next
  case (after_timers rl now)
  then show ?case by (simp add: limiter_inv_timers)
next
  case (after_timeout rl)
  then show ?case by (simp add: limiter_inv_timers)
qed

lemma paused_inv_class:
  assumes "reachable rl" and "isPaused rl"
  shows "check now rl = (False, rl)
       \<and> timestamps rl \<noteq> []
       \<and> maxRequests rl < int (length (timestamps rl))
       \<and> (\<exists>due. timers rl = [due])"
proof -
  have "limiter_inv rl" using assms(1) by (rule reachable_inv)
  with assms(2) show ?thesis
    by (auto simp add: limiter_inv_def check_paused length_Suc_conv)
qed

lemma reachable_example:
  "reachable (snd (check 1 (snd (check 0 (new_RateLimiter 1 10000 3000)))))"
  by (intro reachable.intros)

lemma example_state:
  "snd (check 1 (snd (check 0 (new_RateLimiter 1 10000 3000))))
     = \<lparr> timestamps = [0, 1], isPaused = True, maxRequests = 1, timeWindow = 10000,
         pauseDuration = 3000, timers = [3001] \<rparr>"
  by (simp add: check_def new_RateLimiter_def triggerPause_def)

lemma run_append:
  "run (es @ fs) rl =
     (let (bs, rl') = run es rl; (cs, rl'') = run fs rl'
      in (bs @ cs, rl''))"
proof (induction es arbitrary: rl)
  case Nil
  show ?case by (simp add: split_beta)
next
  case (Cons e es)
  then show ?case
    by (cases e) (simp_all add: split_beta Let_def)
qed

lemma check_admit:
  assumes "\<not> isPaused rl"
    and "\<forall>ts \<in> set (timestamps rl). now - ts < timeWindow rl"
    and "int (length (timestamps rl)) < maxRequests rl"
  shows "check now rl = (True, rl\<lparr> timestamps := timestamps rl @ [now] \<rparr>)"
proof -
  have "filter (\<lambda>ts. now - ts < timeWindow rl) (timestamps rl) = timestamps rl"
    using assms(2) by (simp add: filter_id_conv)
  then show ?thesis
    using assms(1,3) by (simp add: check_open)
qed

lemma check_trip:
  assumes "\<not> isPaused rl" and "timers rl = []"
    and "\<forall>ts \<in> set (timestamps rl). now - ts < timeWindow rl"
    and "int (length (timestamps rl)) = maxRequests rl"
  shows "check now rl =
     (False, rl\<lparr> timestamps := timestamps rl @ [now], isPaused := True,
                  timers := [now + pauseDuration rl] \<rparr>)"
proof -
  have "filter (\<lambda>ts. now - ts < timeWindow rl) (timestamps rl) = timestamps rl"
    using assms(3) by (simp add: filter_id_conv)
  then show ?thesis
    using assms(1,2,4) by (simp add: check_open)
qed

lemma burst_admitted:
  assumes "\<not> isPaused rl" and "timers rl = []"
    and "\<forall>ts \<in> set (timestamps rl) \<union> set (instants es). \<forall>t \<in> set (instants es).
           t - ts < timeWindow rl"
    and "int (length (timestamps rl) + length (instants es)) \<le> maxRequests rl"
  shows "run es rl
     = (replicate (length (instants es)) True, rl\<lparr> timestamps := timestamps rl @ instants es \<rparr>)"
  using assms
proof (induction es rl rule: run.induct)
  case (1 rl)
  then show ?case by simp
next
  case (2 now es rl)
  let ?rl = "rl\<lparr> timestamps := timestamps rl @ [now] \<rparr>"
  have step: "check now rl = (True, ?rl)"
    using "2.prems" by (intro check_admit) auto
  have "run es ?rl
     = (replicate (length (instants es)) True, ?rl\<lparr> timestamps := timestamps ?rl @ instants es \<rparr>)"
    using "2.prems" by (intro "2.IH" [OF step [symmetric] refl]) auto
  then show ?case
    by (simp add: step)
next
  case (3 es rl)
  have "fire_timer rl = rl"
    using "3.prems"(2) by (rule fire_timer_none)
  with "3.IH" "3.prems" show ?case by simp
qed

lemma sorted_span:
  fixes xs :: "int list"
  assumes "sorted xs" and "x \<in> set xs" and "y \<in> set xs"
  shows "y - x \<le> last xs - hd xs"
proof -
  have ne: "xs \<noteq> []" using assms(2) by auto
  have "hd xs \<le> x"
    using assms(1,2) ne by (cases xs) auto
  moreover have "y \<le> last xs"
  proof -
    have xs: "xs = butlast xs @ [last xs]"
      using ne by simp
    then have "sorted (butlast xs @ [last xs])" "y \<in> set (butlast xs @ [last xs])"
      using assms(1,3) by simp_all
    then show ?thesis
      by (auto simp add: sorted_append simp del: append_butlast_last_id)
  qed
  ultimately show ?thesis by simp
qed

lemma burst_trips:
  assumes "sorted nows" and "length nows = N + 1" and "last nows - hd nows < w"
    and "instants es = butlast nows"
  shows "run (es @ [Message (last nows)]) (new_RateLimiter (int N) w p)
     = (replicate N True @ [False],
        \<lparr> timestamps = nows, isPaused = True, maxRequests = int N, timeWindow = w,
          pauseDuration = p, timers = [last nows + p] \<rparr>)"
proof -
  let ?rl0 = "new_RateLimiter (int N) w p"
  let ?pre = "butlast nows"
  let ?x = "last nows"
  let ?rl1 = "?rl0\<lparr> timestamps := timestamps ?rl0 @ instants es \<rparr>"
  have ne: "nows \<noteq> []" using assms(2) by auto
  then have split: "?pre @ [?x] = nows" by simp
  have len: "length ?pre = N" using assms(2) by simp
  have within: "t - ts < w" if "ts \<in> set nows" "t \<in> set nows" for ts t
    using sorted_span [OF assms(1) that] assms(3) by simp
  have pre: "set ?pre \<subseteq> set nows"
    by (auto dest: in_set_butlastD)
  have 1: "run es ?rl0 = (replicate (length (instants es)) True, ?rl1)"
  proof (rule burst_admitted)
    show "\<not> isPaused ?rl0" "timers ?rl0 = []"
      by (simp_all add: new_RateLimiter_def)
    show "\<forall>ts \<in> set (timestamps ?rl0) \<union> set (instants es). \<forall>t \<in> set (instants es).
        t - ts < timeWindow ?rl0"
      using within pre by (auto simp add: new_RateLimiter_def assms(4))
    show "int (length (timestamps ?rl0) + length (instants es)) \<le> maxRequests ?rl0"
      using len by (simp add: new_RateLimiter_def assms(4))
  qed
  have "check ?x ?rl1 =
     (False, ?rl1\<lparr> timestamps := timestamps ?rl1 @ [?x], isPaused := True,
                    timers := [?x + pauseDuration ?rl1] \<rparr>)"
  proof (rule check_trip)
    show "\<not> isPaused ?rl1" "timers ?rl1 = []"
      by (simp_all add: new_RateLimiter_def)
    show "\<forall>ts \<in> set (timestamps ?rl1). ?x - ts < timeWindow ?rl1"
      using within pre ne by (auto simp add: new_RateLimiter_def assms(4))
    show "int (length (timestamps ?rl1)) = maxRequests ?rl1"
      using len by (simp add: new_RateLimiter_def assms(4))
  qed
  then have trip: "check ?x \<lparr> timestamps = ?pre, isPaused = False, maxRequests = int N,
        timeWindow = w, pauseDuration = p, timers = [] \<rparr> =
     (False, \<lparr> timestamps = ?pre @ [?x], isPaused = True, maxRequests = int N, timeWindow = w,
          pauseDuration = p, timers = [?x + p] \<rparr>)"
    by (simp add: new_RateLimiter_def assms(4))
  have "run (es @ [Message ?x]) ?rl0
     = (replicate N True @ [False],
        \<lparr> timestamps = ?pre @ [?x], isPaused = True, maxRequests = int N, timeWindow = w,
          pauseDuration = p, timers = [?x + p] \<rparr>)"
    unfolding run_append 1
    using len by (simp add: trip assms(4) new_RateLimiter_def)
  then show ?thesis
    unfolding split .
qed

lemma instants_map_Message: "instants (map Message nows) = nows"
  by (induction nows) simp_all






lemma limiter_of_initial:
  "limiter_of initial_globals = new_RateLimiter MAX_REQUESTS TIME_WINDOW PAUSE_DURATION"
  by (simp add: limiter_of_def initial_globals_def new_RateLimiter_def)

lemma limiter_of_inject: "limiter_of g = limiter_of g' \<longleftrightarrow> g = g'"
  by (cases g, cases g') (simp add: limiter_of_def)

lemma sim_guard: "check now (limiter_of g) = apsnd limiter_of (data_guard now g)"
  by (simp add: check_def data_guard_def checkRateLimit_def triggerPause_def limiter_of_def Let_def)

lemma sim_resume: "resume (limiter_of g) = limiter_of (resume_globals g)"
  by (simp add: resume_def resume_globals_def limiter_of_def)

lemma sim_fold:
  "fold (\<lambda>due rl. if due \<le> now then resume rl else rl) dues (limiter_of g)
     = limiter_of (fold (\<lambda>due g. if due \<le> now then resume_globals g else g) dues g)"
  by (induction dues arbitrary: g) (simp_all add: sim_resume)

lemma sim_timers: "run_timers now (limiter_of g) = limiter_of (run_timers_globals now g)"
proof -
  have "(limiter_of g)\<lparr> timers := filter (\<lambda>due. now < due) (timers (limiter_of g)) \<rparr>
      = limiter_of (g\<lparr> pending := filter (\<lambda>due. now < due) (pending g) \<rparr>)"
    by (simp add: limiter_of_def)
  moreover have "timers (limiter_of g) = pending g"
    by (simp add: limiter_of_def)
  ultimately show ?thesis
    by (simp add: run_timers_def run_timers_globals_def sim_fold)
qed

lemma sim_fire: "fire_timer (limiter_of g) = limiter_of (fire_timer_globals g)"
proof (cases "pending g")
  case Nil
  then show ?thesis
    by (simp add: fire_timer_def fire_timer_globals_def limiter_of_def)
next
  case (Cons due rest)
  have "(limiter_of g)\<lparr> timers := rest \<rparr> = limiter_of (g\<lparr> pending := rest \<rparr>)"
    by (simp add: limiter_of_def)
  moreover have "timers (limiter_of g) = due # rest"
    using Cons by (simp add: limiter_of_def)
  ultimately show ?thesis
    using Cons by (simp add: fire_timer_def fire_timer_globals_def sim_resume)
qed

lemma sim_run: "run es (limiter_of g) = apsnd limiter_of (run_globals es g)"
proof (induction es arbitrary: g)
  case Nil
  show ?case by simp
next
  case (Cons e es)
  then show ?case
    by (cases e) (simp_all add: sim_guard sim_fire split_beta Let_def)
qed

lemma reachable_globals_limiter: "reachable_globals g \<Longrightarrow> reachable (limiter_of g)"
proof (induction rule: reachable_globals.induct)
  case init_globals
  show ?case unfolding limiter_of_initial by (rule reachable.init)
next
  case (after_data g now)
  have "limiter_of (snd (data_guard now g)) = snd (check now (limiter_of g))"
    by (simp add: sim_guard)
  then show ?case using after_data.IH by (simp add: reachable.after_check)
next
  case (after_timers_globals g now)
  then show ?case by (simp add: reachable.after_timers flip: sim_timers)
next
  case (after_timeout_globals g)
  then show ?case by (simp add: reachable.after_timeout flip: sim_fire)
qed

lemma checkRateLimit_open:
  assumes "\<not> paused g"
  shows "checkRateLimit now g =
     (let ts' = filter (\<lambda>ts. now - ts < TIME_WINDOW) (requestTimestamps g) @ [now]
      in if MAX_REQUESTS < int (length ts')
         then (False, g\<lparr> requestTimestamps := ts', paused := True,
                           pending := pending g @ [now + PAUSE_DURATION] \<rparr>)
         else (True, g\<lparr> requestTimestamps := ts' \<rparr>))"
  using assms by (simp add: checkRateLimit_def Let_def)

lemma apsnd_limiter_of_eq:
  "apsnd limiter_of r = (b, limiter_of g) \<longleftrightarrow> r = (b, g)"
  by (cases r) (simp add: limiter_of_inject)

lemma paused_inv_globals:
  assumes "reachable_globals g" and "paused g"
  shows "data_guard now g = (False, g)
       \<and> requestTimestamps g \<noteq> []
       \<and> MAX_REQUESTS < int (length (requestTimestamps g))
       \<and> (\<exists>due. pending g = [due])"
proof -
  have "reachable (limiter_of g)"
    using assms(1) by (rule reachable_globals_limiter)
  moreover have "isPaused (limiter_of g)"
    using assms(2) by (simp add: limiter_of_def)
  ultimately have "timestamps (limiter_of g) \<noteq> []
       \<and> maxRequests (limiter_of g) < int (length (timestamps (limiter_of g)))
       \<and> (\<exists>due. timers (limiter_of g) = [due])"
    using paused_inv_class [of "limiter_of g"] by blast
  then show ?thesis
    using assms(2) by (simp add: limiter_of_def data_guard_def)
qed

lemma burst_trips_globals:
  assumes "sorted nows" and "length nows = 31" and "last nows - hd nows < TIME_WINDOW"
    and "instants es = butlast nows"
  shows "run_globals (es @ [Message (last nows)]) initial_globals
     = (replicate 30 True @ [False],
        \<lparr> requestTimestamps = nows, paused = True, pending = [last nows + PAUSE_DURATION] \<rparr>)"
proof -
  have "run (es @ [Message (last nows)]) (new_RateLimiter (int 30) TIME_WINDOW PAUSE_DURATION)
     = (replicate 30 True @ [False],
        \<lparr> timestamps = nows, isPaused = True, maxRequests = int 30, timeWindow = TIME_WINDOW,
          pauseDuration = PAUSE_DURATION, timers = [last nows + PAUSE_DURATION] \<rparr>)"
    using assms by (intro burst_trips) simp_all
  moreover have "new_RateLimiter (int 30) TIME_WINDOW PAUSE_DURATION = limiter_of initial_globals"
    by (simp add: limiter_of_initial MAX_REQUESTS_def)
  moreover have "\<lparr> timestamps = nows, isPaused = True, maxRequests = int 30,
        timeWindow = TIME_WINDOW, pauseDuration = PAUSE_DURATION,
        timers = [last nows + PAUSE_DURATION] \<rparr>
      = limiter_of \<lparr> requestTimestamps = nows, paused = True,
          pending = [last nows + PAUSE_DURATION] \<rparr>"
    by (simp add: limiter_of_def MAX_REQUESTS_def)
  ultimately show ?thesis
    by (simp only: sim_run apsnd_limiter_of_eq)
qed


lemma reachable_run_globals:
  "reachable_globals g \<Longrightarrow> reachable_globals (snd (run_globals es g))"
proof (induction es arbitrary: g)
  case Nil
  then show ?case by simp
next
  case (Cons e es)
  show ?case
  proof (cases e)
    case (Message now)
    have "reachable_globals (snd (data_guard now g))"
      by (intro reachable_globals.after_data Cons.prems)
    then have "reachable_globals (snd (run_globals es (snd (data_guard now g))))"
      by (rule Cons.IH)
    then show ?thesis
      by (simp add: Message split_beta)
  next
    case Timeout
    have "reachable_globals (fire_timer_globals g)"
      by (intro reachable_globals.after_timeout_globals Cons.prems)
    then have "reachable_globals (snd (run_globals es (fire_timer_globals g)))"
      by (rule Cons.IH)
    then show ?thesis
      by (simp add: Timeout)
  qed
qed

lemma example_burst_facts:
  "sorted example_burst" "length example_burst = 31" "last example_burst = 3000"
  "hd example_burst = 0"
  by (simp_all add: example_burst_def)

lemma example_tripped_run:
  "run_globals (map Message example_burst) initial_globals
     = (replicate 30 True @ [False], example_tripped)"
proof -
  have "last example_burst - hd example_burst < TIME_WINDOW"
    by (simp add: example_burst_facts TIME_WINDOW_def)
  moreover have "instants (map Message (butlast example_burst)) = butlast example_burst"
    by (rule instants_map_Message)
  moreover have "map Message example_burst
      = map Message (butlast example_burst) @ [Message (last example_burst)]"
    by (simp add: example_burst_def)
  ultimately show ?thesis
    using burst_trips_globals [OF example_burst_facts(1,2), of "map Message (butlast example_burst)"]
    by (simp add: example_tripped_def example_burst_facts PAUSE_DURATION_def)
qed

lemma reachable_example_tripped: "reachable_globals example_tripped"
  using reachable_run_globals [OF reachable_globals.init_globals, of "map Message example_burst"]
  by (simp add: example_tripped_run)




lemma instants_append: "instants (es @ fs) = instants es @ instants fs"
proof (induction es)
  case Nil
  show ?case by simp
next
  case (Cons e es)
  then show ?case by (cases e) simp_all
qed

lemma ends_with_message:
  assumes "instants es = nows" and "nows \<noteq> []" and "last es = Message (last nows)"
  shows "es = butlast es @ [Message (last nows)]" and "instants (butlast es) = butlast nows"
proof -
  have "es \<noteq> []" using assms(1,2) by auto
  then show es: "es = butlast es @ [Message (last nows)]"
    using assms(3) by (metis append_butlast_last_id)
  have "instants (butlast es @ [Message (last nows)]) = nows"
    using es assms(1) by simp
  then have "instants (butlast es) @ [last nows] = nows"
    by (simp add: instants_append)
  then show "instants (butlast es) = butlast nows"
    by (metis butlast_snoc)
qed

lemma burst_run:
  assumes "sorted nows" and "length nows = N + 1" and "last nows - hd nows < w"
    and "instants es = nows" and "last es = Message (last nows)"
  shows "run es (new_RateLimiter (int N) w p)
     = (replicate N True @ [False],
        \<lparr> timestamps = nows, isPaused = True, maxRequests = int N, timeWindow = w,
          pauseDuration = p, timers = [last nows + p] \<rparr>)"
proof -
  have ne: "nows \<noteq> []" using assms(2) by auto
  note e = ends_with_message [OF assms(4) ne assms(5)]
  show ?thesis
    using burst_trips [OF assms(1,2,3) e(2), of p] e(1) by simp
qed

lemma burst_run_globals:
  assumes "sorted nows" and "length nows = 31" and "last nows - hd nows < TIME_WINDOW"
    and "instants es = nows" and "last es = Message (last nows)"
  shows "run_globals es initial_globals
     = (replicate 30 True @ [False],
        \<lparr> requestTimestamps = nows, paused = True, pending = [last nows + PAUSE_DURATION] \<rparr>)"
proof -
  have ne: "nows \<noteq> []" using assms(2) by auto
  note e = ends_with_message [OF assms(4) ne assms(5)]
  show ?thesis
    using burst_trips_globals [OF assms(1,2,3) e(2)] e(1) by simp
qed

text \<open>
  Claim C2, as the code has it. In every reachable state in which the limiter is paused, a
  check returns false and leaves the state as it is, so no timestamp is added; the timestamp
  sequence is not empty during a pause: it holds the more than \<open>maxRequests\<close> timestamps
  recorded up to the call that tripped the limiter, and only the callback that ends the pause
  empties it. Exactly one such callback is pending. The same holds for the global state of
  \<open>src/stun-server.ts\<close> and the guard of its handler.
\<close>

theorem paused_invariant:
  "(reachable rl \<and> isPaused rl \<longrightarrow>
       check now rl = (False, rl)
     \<and> timestamps rl \<noteq> []
     \<and> maxRequests rl < int (length (timestamps rl))
     \<and> (\<exists>due. timers rl = [due]))
   \<and> (reachable_globals g \<and> paused g \<longrightarrow>
       data_guard now g = (False, g)
     \<and> requestTimestamps g \<noteq> []
     \<and> MAX_REQUESTS < int (length (requestTimestamps g))
     \<and> (\<exists>due. pending g = [due]))"
  using paused_inv_class [of rl now] paused_inv_globals [of g now] by blast

theorem paused_invariant_witness:
  "check 5 \<lparr> timestamps = [0, 1], isPaused = True, maxRequests = 1, timeWindow = 10000,
              pauseDuration = 3000, timers = [3001] \<rparr>
     = (False, \<lparr> timestamps = [0, 1], isPaused = True, maxRequests = 1, timeWindow = 10000,
                 pauseDuration = 3000, timers = [3001] \<rparr>)
   \<and> data_guard 5 example_tripped = (False, example_tripped)
   \<and> requestTimestamps example_tripped \<noteq> []"
proof -
  have "reachable \<lparr> timestamps = [0, 1], isPaused = True, maxRequests = 1, timeWindow = 10000,
              pauseDuration = 3000, timers = [3001] \<rparr>"
    using reachable_example by (simp add: example_state)
  moreover have "paused example_tripped"
    by (simp add: example_tripped_def)
  ultimately show ?thesis
    using paused_invariant [of "\<lparr> timestamps = [0, 1], isPaused = True, maxRequests = 1,
        timeWindow = 10000, pauseDuration = 3000, timers = [3001] \<rparr>" 5 example_tripped]
      reachable_example_tripped
    by simp
qed

text \<open>
  Claim C2 as stated fails: after two checks at instants 0 and 1 a limiter with
  \<open>maxRequests = 1\<close> is paused, and its timestamp sequence is \<open>[0, 1]\<close>.
\<close>

theorem paused_nonempty_counterexample:
  "reachable (snd (check 1 (snd (check 0 (new_RateLimiter 1 10000 3000)))))
   \<and> isPaused (snd (check 1 (snd (check 0 (new_RateLimiter 1 10000 3000)))))
   \<and> timestamps (snd (check 1 (snd (check 0 (new_RateLimiter 1 10000 3000))))) = [0, 1]
   \<and> timestamps (snd (check 1 (snd (check 0 (new_RateLimiter 1 10000 3000))))) \<noteq> []"
  using reachable_example by (simp add: example_state)

text \<open>
  Claim C3. When the limiter is not paused, a check at \<open>now\<close> keeps the timestamps
  younger than the window, appends \<open>now\<close>, and if there are then more than
  \<open>maxRequests\<close> of them pauses and returns false, the tripping timestamp recorded;
  otherwise it returns true. So in every run from a new limiter with \<open>maxRequests = N\<close>
  whose \<open>N + 1\<close> datagrams arrive in order within the window, and which ends with the
  last of them, the first \<open>N\<close> are admitted and the last is rejected and pauses the
  limiter; where the runtime's \<open>Timeout\<close> events fall in the run makes no difference, no
  callback being pending before the trip. The same for \<open>checkRateLimit\<close> and the
  thirty-one datagrams that trip \<open>MAX_REQUESTS = 30\<close>.
\<close>

theorem check_open_then_burst:
  "(\<not> isPaused rl \<longrightarrow>
      check now rl =
        (let ts' = filter (\<lambda>ts. now - ts < timeWindow rl) (timestamps rl) @ [now]
         in if maxRequests rl < int (length ts')
            then (False, rl\<lparr> timestamps := ts', isPaused := True,
                               timers := timers rl @ [now + pauseDuration rl] \<rparr>)
            else (True, rl\<lparr> timestamps := ts' \<rparr>)))
   \<and> (sorted nows \<and> length nows = N + 1 \<and> last nows - hd nows < w
        \<and> instants es = nows \<and> last es = Message (last nows) \<longrightarrow>
      run es (new_RateLimiter (int N) w p)
        = (replicate N True @ [False],
           \<lparr> timestamps = nows, isPaused = True, maxRequests = int N, timeWindow = w,
             pauseDuration = p, timers = [last nows + p] \<rparr>))
   \<and> (\<not> paused g \<longrightarrow>
      checkRateLimit now g =
        (let ts' = filter (\<lambda>ts. now - ts < TIME_WINDOW) (requestTimestamps g) @ [now]
         in if MAX_REQUESTS < int (length ts')
            then (False, g\<lparr> requestTimestamps := ts', paused := True,
                              pending := pending g @ [now + PAUSE_DURATION] \<rparr>)
            else (True, g\<lparr> requestTimestamps := ts' \<rparr>)))
   \<and> (sorted nows' \<and> length nows' = 31 \<and> last nows' - hd nows' < TIME_WINDOW
        \<and> instants es' = nows' \<and> last es' = Message (last nows') \<longrightarrow>
      run_globals es' initial_globals
        = (replicate 30 True @ [False],
           \<lparr> requestTimestamps = nows', paused = True,
             pending = [last nows' + PAUSE_DURATION] \<rparr>))"
  using check_open [of rl now] burst_run [of nows N w es p]
    checkRateLimit_open [of g now] burst_run_globals [of nows' es']
  by blast

theorem check_open_then_burst_witness:
  "check 10500 \<lparr> timestamps = [400, 500, 600], isPaused = False, maxRequests = 3,
                  timeWindow = 10000, pauseDuration = 3000, timers = [] \<rparr>
     = (True, \<lparr> timestamps = [600, 10500], isPaused = False, maxRequests = 3,
                timeWindow = 10000, pauseDuration = 3000, timers = [] \<rparr>)
   \<and> run [Message 100, Message 100, Timeout, Message 250, Message 9000]
         (new_RateLimiter 3 10000 3000)
     = ([True, True, True, False],
        \<lparr> timestamps = [100, 100, 250, 9000], isPaused = True, maxRequests = 3,
          timeWindow = 10000, pauseDuration = 3000, timers = [12000] \<rparr>)
   \<and> checkRateLimit 10500 \<lparr> requestTimestamps = [400, 500, 600], paused = False, pending = [] \<rparr>
     = (True, \<lparr> requestTimestamps = [600, 10500], paused = False, pending = [] \<rparr>)
   \<and> run_globals (map Message example_burst) initial_globals
     = (replicate 30 True @ [False],
        \<lparr> requestTimestamps = example_burst, paused = True, pending = [6000] \<rparr>)"
proof -
  have i: "instants (map Message example_burst) = example_burst"
    by (rule instants_map_Message)
  have l: "last (map Message example_burst) = Message (last example_burst)"
    by (simp add: example_burst_def)
  have j: "instants [Message 100, Message 100, Timeout, Message 250, Message 9000]
      = [100, 100, 250, 9000]"
    by simp
  show ?thesis
    using check_open_then_burst [of "\<lparr> timestamps = [400, 500, 600], isPaused = False,
        maxRequests = 3, timeWindow = 10000, pauseDuration = 3000, timers = [] \<rparr>" 10500
        "[100, 100, 250, 9000]" 3 10000
        "[Message 100, Message 100, Timeout, Message 250, Message 9000]" 3000
        "\<lparr> requestTimestamps = [400, 500, 600], paused = False, pending = [] \<rparr>"
        example_burst "map Message example_burst"] i j l
    by (simp add: numeral_eq_Suc example_burst_facts TIME_WINDOW_def MAX_REQUESTS_def
          PAUSE_DURATION_def del: run.simps run_globals.simps instants.simps)
qed




text \<open>
  Claim C10. The constructor of \<open>part_000\<close> throws exactly when one of its three
  arguments is at most 0; otherwise it returns a limiter that is not paused and has no
  timestamps, and whose first check admits.
\<close>

theorem new_RateLimiter_validated_iff:
  "((\<exists>e. new_RateLimiter_validated m w p = Inl e) \<longleftrightarrow> m \<le> 0 \<or> w \<le> 0 \<or> p \<le> 0)
   \<and> (0 < m \<and> 0 < w \<and> 0 < p \<longrightarrow>
        new_RateLimiter_validated m w p
          = Inr \<lparr> timestamps = [], isPaused = False, maxRequests = m, timeWindow = w,
                  pauseDuration = p, timers = [] \<rparr>
      \<and> fst (check now \<lparr> timestamps = [], isPaused = False, maxRequests = m, timeWindow = w,
                           pauseDuration = p, timers = [] \<rparr>))"
  by (auto simp add: new_RateLimiter_validated_def check_def)

theorem new_RateLimiter_validated_iff_witness:
  "new_RateLimiter_validated 15000 10000 3000
     = Inr \<lparr> timestamps = [], isPaused = False, maxRequests = 15000, timeWindow = 10000,
             pauseDuration = 3000, timers = [] \<rparr>
   \<and> (\<exists>e. new_RateLimiter_validated 15000 0 3000 = Inl e)"
  using new_RateLimiter_validated_iff [of 15000 10000 3000]
    new_RateLimiter_validated_iff [of 15000 0 3000]
  by simp

end
